theory Spec2Isabelle
  imports Complex_Main "HOL-Library.Word" "HOL-Library.Signed_Division"
begin

unbundle bit_operations_syntax

section \<open>Encoding a callsign and SSID into a MAC address (\<open>eth_ar_call2mac\<close>)\<close>

type_synonym uint8_t = "8 word"
type_synonym uint64_t = "64 word"

text \<open>
  The lookup table \<^verbatim>\<open>static char alnum2code[37]\<close>: the ten digits, the twenty-six
  capital letters, and a final NUL.
\<close>

definition alnum2code :: "char list" where
  "alnum2code = ''0123456789ABCDEFGHIJKLMNOPQRSTUVWXYZ'' @ [CHR 0x00]"

text \<open>
  A C string is the memory a \<^verbatim>\<open>char *\<close> points to; \<^verbatim>\<open>strlen\<close> counts the
  characters before the first NUL, and nothing behind that NUL is read by the encoder.
\<close>

definition strlen :: "char list \<Rightarrow> nat" where
  "strlen s = length (takeWhile (\<lambda>c. c \<noteq> CHR 0x00) s)"

text \<open>\<^verbatim>\<open>toupper\<close> in the C locale: the letters a..z (97..122) move down by 32.\<close>

definition toupper :: "char \<Rightarrow> char" where
  "toupper c =
     (if (97::nat) \<le> of_char c \<and> (of_char c :: nat) \<le> 122
      then char_of ((of_char c :: nat) - 32) else c)"

text \<open>
  The inner loop
  \<^verbatim>\<open>for (j = 0; j < sizeof(alnum2code); j++) if (alnum2code[j] == c) break;\<close>
  leaves \<open>j\<close> at the first index holding \<open>c\<close>, or at the table's size.
\<close>

fun scan_code :: "char list \<Rightarrow> char \<Rightarrow> nat \<Rightarrow> nat" where
  "scan_code [] c j = j"
| "scan_code (a # as) c j = (if a = c then j else scan_code as c (Suc j))"

text \<open>
  The character the loop body looks up at index \<open>i\<close>:
  \<^verbatim>\<open>if (i >= strlen(callsign)) c = 0; else c = toupper(callsign[i]);\<close>
\<close>

definition padded_char :: "char list \<Rightarrow> nat \<Rightarrow> char" where
  "padded_char callsign i =
     (if i \<ge> strlen callsign then CHR 0x00 else toupper (callsign ! i))"

text \<open>
  The outer loop \<^verbatim>\<open>for (i = 7; i >= 0; i--)\<close>: \<open>call2mac_loop callsign (Suc i) add\<close>
  runs the body at index \<open>i\<close> and goes on with \<open>i - 1\<close>; \<open>None\<close> is the
  \<^verbatim>\<open>return -1\<close> inside the loop. The accumulator is the \<^verbatim>\<open>uint64_t add\<close>.
\<close>

fun call2mac_loop :: "char list \<Rightarrow> nat \<Rightarrow> uint64_t \<Rightarrow> uint64_t option" where
  "call2mac_loop callsign 0 add = Some add"
| "call2mac_loop callsign (Suc i) add =
     (let c = padded_char callsign i;
          j = scan_code alnum2code c 0
      in if j = length alnum2code then None
         else call2mac_loop callsign i (add * 37 + of_nat j))"

text \<open>
  The function returns its \<^verbatim>\<open>int\<close> result together with the \<^verbatim>\<open>mac\<close> buffer as
  it is left behind. The right-hand side of \<^verbatim>\<open>mac[0] = ...\<close> is computed in
  \<^verbatim>\<open>uint64_t\<close> and truncated to a byte by the assignment.
\<close>

definition mac0_byte :: "uint64_t \<Rightarrow> int \<Rightarrow> bool \<Rightarrow> uint8_t" where
  "mac0_byte add ssid multicast =
     ucast (((drop_bit (40 - 6) add) AND 0xc0) OR word_of_int (ssid * 2 ^ 2) OR 0x02
            OR (if multicast then 1 else 0))"

definition eth_ar_call2mac ::
  "uint8_t list \<Rightarrow> char list \<Rightarrow> int \<Rightarrow> bool \<Rightarrow> int \<times> uint8_t list" where
  "eth_ar_call2mac mac callsign ssid multicast =
     (if ssid > 15 \<or> ssid < 0 then (- 1, mac)
      else case call2mac_loop callsign 8 0 of
        None \<Rightarrow> (- 1, mac)
      | Some add \<Rightarrow>
          (0, mac[0 := mac0_byte add ssid multicast,
                  1 := ucast ((drop_bit 32 add) AND 0xff),
                  2 := ucast ((drop_bit 24 add) AND 0xff),
                  3 := ucast ((drop_bit 16 add) AND 0xff),
                  4 := ucast ((drop_bit 8 add) AND 0xff),
                  5 := ucast (add AND 0xff)]))"

section \<open>The data channel callback (\<open>my_datatx\<close>)\<close>

type_synonym c_int = "32 word"
type_synonym short = "16 word"

text \<open>
  A C \<^verbatim>\<open>int\<close> is a 32-bit word read with \<open>sint\<close>; \<^verbatim>\<open>++\<close> on it is \<open>+ 1\<close> on the word
  (the two's-complement wrap compilers produce where the C standard leaves the
  overflow undefined). \<^verbatim>\<open>%\<close> truncates towards zero: \<open>smod\<close> on the signed value.
\<close>

record my_callback_state =
  cb_calls :: c_int
  cb_mac :: "uint8_t list"

text \<open>
  Writing through a pointer: \<open>store_at buf off xs\<close> stores the values \<open>xs\<close> at
  \<open>buf[off]\<close>, \<open>buf[off + 1]\<close>, ... The buffer keeps its size; a store behind its end
  (a buffer overflow in C) is dropped, and the theorems below ask for buffers that are
  large enough. \<^verbatim>\<open>memset(p, v, n)\<close> is \<open>store_at p 0 (replicate n v)\<close> and
  \<^verbatim>\<open>memcpy(p + k, q, n)\<close> is \<open>store_at p k (take n q)\<close>.
\<close>

fun store_at :: "'a list \<Rightarrow> nat \<Rightarrow> 'a list \<Rightarrow> 'a list" where
  "store_at buf off [] = buf"
| "store_at buf off (x # xs) = store_at (buf[off := x]) (Suc off) xs"

text \<open>The loop \<^verbatim>\<open>for (i = 0; i < 64; i++) packet[i + 14] = i;\<close> with the final \<open>i\<close>.\<close>

function fill_count :: "uint8_t list \<Rightarrow> nat \<Rightarrow> uint8_t list \<times> nat" where
  "fill_count packet i =
     (if i < 64 then fill_count (packet[i + 14 := of_nat i]) (Suc i) else (packet, i))"
  by pat_completeness auto
termination
  by (relation "measure (\<lambda>(packet, i). 64 - i)") auto

text \<open>
  \<open>my_datatx data_type my_cb_state packet\<close> takes the function's
  \<^verbatim>\<open>static int data_type\<close>, the callback state and the packet buffer, and returns the
  three as the call leaves them, with the value stored in \<^verbatim>\<open>*size\<close>.
\<close>

definition my_datatx ::
  "c_int \<Rightarrow> my_callback_state \<Rightarrow> uint8_t list
     \<Rightarrow> c_int \<times> my_callback_state \<times> uint8_t list \<times> nat" where
  "my_datatx data_type my_cb_state packet =
     (let st = my_cb_state\<lparr>cb_calls := cb_calls my_cb_state + 1\<rparr> in
      if sint data_type smod 4 = 1 then
        (let p1 = store_at packet 0 (replicate 6 0xff);
             p2 = store_at p1 6 (take 6 (cb_mac st));
             p3 = p2[12 := 0x01];
             p4 = p3[13 := 0x01];
             (p5, i) = fill_count p4 0
         in (data_type + 1, st, p5, i + 14))
      else if sint data_type smod 4 = 2 then
        (let p1 = store_at packet 0 (replicate 6 0xff);
             p2 = store_at p1 6 (take 6 (cb_mac st));
             p3 = p2[12 := 0x73];
             p4 = p3[13 := 0x70];
             p5 = p4[14 := 0x07, 15 := 0x3d, 16 := 0xd0, 17 := 0x37,
                     18 := 0xd0 OR 0x08 OR 0x01, 19 := 0x3e, 20 := 0x70, 21 := 0x85]
         in (data_type + 1, st, p5, 22))
      else (data_type + 1, st, packet, 0))"

text \<open>
  Successive calls of the callback, one for each packet buffer the caller hands in,
  threading \<open>data_type\<close> and the callback state; each call is recorded as the size it
  reported and the first \<open>sz\<close> bytes of the buffer, the packet it produced.
\<close>

fun datatx_calls ::
  "c_int \<Rightarrow> my_callback_state \<Rightarrow> uint8_t list list
     \<Rightarrow> c_int \<times> my_callback_state \<times> (nat \<times> uint8_t list) list" where
  "datatx_calls data_type st [] = (data_type, st, [])"
| "datatx_calls data_type st (packet # packets) =
     (case my_datatx data_type st packet of
        (data_type', st', packet', sz) \<Rightarrow>
          (case datatx_calls data_type' st' packets of
             (data_type'', st'', sent) \<Rightarrow> (data_type'', st'', (sz, take sz packet') # sent)))"

section \<open>The transmit program (\<open>main\<close>)\<close>

subsection \<open>Energy of a block of samples\<close>

text \<open>
  A C \<^verbatim>\<open>float\<close> that is a number is modelled by the real it denotes, and \<open>None\<close> stands
  for the not-a-number \<^verbatim>\<open>0.0f / 0\<close>; comparing floats that are numbers is exact, and every
  comparison with a not-a-number is false. Float arithmetic rounds its result: the
  rounding is the parameter \<open>fl\<close> of the functions below (the identity for exact
  arithmetic). Infinities do not arise from 16-bit samples and are left out.
\<close>

type_synonym c_float = "real option"

text \<open>
  \<^verbatim>\<open>for (i = 0; i < nr; i++) e += (float)(samples[i] * samples[i]) / (8192);\<close>
  The product is computed in \<^verbatim>\<open>int\<close> (at most \<open>2 ^ 30\<close>, no overflow).
\<close>

function energy_loop :: "(real \<Rightarrow> real) \<Rightarrow> short list \<Rightarrow> nat \<Rightarrow> nat \<Rightarrow> real \<Rightarrow> real" where
  "energy_loop fl samples nr i e =
     (if i < nr
      then energy_loop fl samples nr (Suc i)
             (fl (e + fl (fl (of_int (sint (samples ! i) * sint (samples ! i))) / 8192)))
      else e)"
  by pat_completeness auto
termination
  by (relation "measure (\<lambda>(fl, samples, nr, i, e). nr - i)") auto

definition samples_get_energy :: "(real \<Rightarrow> real) \<Rightarrow> short list \<Rightarrow> nat \<Rightarrow> c_float" where
  "samples_get_energy fl samples nr =
     (if nr = 0 then None
      else Some (fl (energy_loop fl samples nr 0 0 / fl (of_nat nr))))"

subsection \<open>The voice or data decision\<close>

text \<open>
  Both branches of the main loop test \<^verbatim>\<open>if (energy < data_threshold)\<close>: the quiet block
  gets \<^verbatim>\<open>freedv_datatx\<close> ("Insert a frame with data instead of speech"), any other
  block is transmitted as voice.
\<close>

datatype frame_kind = DATA | VOICE

definition frame_decision :: "c_float \<Rightarrow> real \<Rightarrow> frame_kind" where
  "frame_decision energy data_threshold =
     (case energy of
        None \<Rightarrow> VOICE
      | Some e \<Rightarrow> if e < data_threshold then DATA else VOICE)"

subsection \<open>The FreeDV and Codec 2 libraries\<close>

text \<open>
  The program is linked against \<^verbatim>\<open>freedv_api.h\<close> and \<^verbatim>\<open>codec2.h\<close>, which are not part
  of the sources at hand: their constants and functions are the fields of a record the
  program is parametrised by. \<open>'f\<close> is the state behind a \<^verbatim>\<open>struct freedv *\<close> (with
  whatever the registered callbacks own), \<open>'c\<close> the state behind a \<^verbatim>\<open>struct CODEC2 *\<close>.
  A function that writes through a pointer argument returns the values it stores there;
  one that reads through a pointer gets the buffer from that pointer on. The sample and
  bit counts the library reports are \<^verbatim>\<open>int\<close>s the program uses as sizes; they are taken
  as natural numbers.
\<close>

type_synonym datatx_callback =
  "c_int \<Rightarrow> my_callback_state \<Rightarrow> uint8_t list \<Rightarrow> c_int \<times> my_callback_state \<times> uint8_t list \<times> nat"

record ('f, 'c) library =
  FREEDV_MODE_2400A :: int
  FREEDV_MODE_2400B :: int
  FREEDV_MODE_800XA :: int
  FREEDV_MODE_700C :: int
  FREEDV_MODE_700D :: int
  CODEC2_MODE_700C :: int
  CODEC2_MODE_1300 :: int
  codec2_create :: "int \<Rightarrow> 'c option"
  codec2_samples_per_frame :: "'c \<Rightarrow> nat"
  codec2_encode :: "'c \<Rightarrow> short list \<Rightarrow> 'c \<times> uint8_t list"
  codec2_get_energy :: "'c \<Rightarrow> uint8_t list \<Rightarrow> real"
  freedv_open :: "int \<Rightarrow> 'f option"
  freedv_set_data_header :: "'f \<Rightarrow> uint8_t list \<Rightarrow> 'f"
  freedv_set_verbose :: "'f \<Rightarrow> int \<Rightarrow> 'f"
  freedv_get_n_speech_samples :: "'f \<Rightarrow> nat"
  freedv_get_n_nom_modem_samples :: "'f \<Rightarrow> nat"
  freedv_set_callback_data :: "'f \<Rightarrow> datatx_callback \<Rightarrow> c_int \<times> my_callback_state \<Rightarrow> 'f"
  freedv_get_bits_per_codec_frame :: "'f \<Rightarrow> nat"
  freedv_get_bits_per_modem_frame :: "'f \<Rightarrow> nat"
  freedv_datatx :: "'f \<Rightarrow> 'f \<times> short list"
  freedv_tx :: "'f \<Rightarrow> short list \<Rightarrow> 'f \<times> short list"
  freedv_rawdata_from_codec_frames :: "'f \<Rightarrow> uint8_t list \<Rightarrow> uint8_t list"
  freedv_rawdatatx :: "'f \<Rightarrow> uint8_t list \<Rightarrow> 'f \<times> short list"

subsection \<open>The environment of the process\<close>

text \<open>
  What the C library and the operating system decide: whether \<^verbatim>\<open>fopen\<close> succeeds
  (\<open>Inl\<close> carries the \<^verbatim>\<open>strerror\<close> text) and what the input holds, as the sequence of
  complete 16-bit samples \<^verbatim>\<open>fread\<close> can deliver; the value of \<^verbatim>\<open>atof\<close>; how float
  arithmetic rounds; whether \<^verbatim>\<open>malloc\<close> succeeds; and the indeterminate contents of the
  uninitialised \<^verbatim>\<open>my_cb_state\<close> and of the fresh \<^verbatim>\<open>mod_out\<close> buffer.
\<close>

record env =
  fopen_rb :: "string \<Rightarrow> string + short list"
  fopen_wb :: "string \<Rightarrow> string + unit"
  stdin_samples :: "short list"
  atof :: "string \<Rightarrow> real"
  float_round :: "real \<Rightarrow> real"
  malloc_ok :: "nat \<Rightarrow> bool"
  stack_calls :: c_int
  stack_mac :: "uint8_t list"
  heap_short :: "nat \<Rightarrow> short"

text \<open>
  \<^verbatim>\<open>atoi\<close>: optional white space and sign, then decimal digits. The C standard leaves
  a value outside \<^verbatim>\<open>int\<close> undefined; the GNU C library returns
  \<^verbatim>\<open>(int) strtol(nptr, NULL, 10)\<close>, where \<^verbatim>\<open>strtol\<close> stops at the ends of a 64-bit
  \<^verbatim>\<open>long\<close> and the conversion to a 32-bit \<^verbatim>\<open>int\<close> keeps the low 32 bits.
\<close>

definition isspace :: "char \<Rightarrow> bool" where
  "isspace c \<longleftrightarrow> c \<in> set [CHR '' '', CHR 0x09, CHR 0x0A, CHR 0x0B, CHR 0x0C, CHR 0x0D]"

definition isdigit :: "char \<Rightarrow> bool" where
  "isdigit c \<longleftrightarrow> (48::nat) \<le> of_char c \<and> (of_char c :: nat) \<le> 57"

fun atoi_digits :: "string \<Rightarrow> int \<Rightarrow> int" where
  "atoi_digits [] n = n"
| "atoi_digits (c # cs) n =
     (if isdigit c then atoi_digits cs (n * 10 + (of_char c - 48)) else n)"

definition strtol :: "string \<Rightarrow> int" where
  "strtol s =
     (case dropWhile isspace s of
        [] \<Rightarrow> 0
      | c # cs \<Rightarrow>
          (let n = (if c = CHR ''-'' then - atoi_digits cs 0
                    else if c = CHR ''+'' then atoi_digits cs 0
                    else atoi_digits (c # cs) 0)
           in max (- (2 ^ 63)) (min (2 ^ 63 - 1) n)))"

definition atoi :: "string \<Rightarrow> int" where
  "atoi s = (strtol s + 2 ^ 31) mod 2 ^ 32 - 2 ^ 31"

subsection \<open>One pass of the main loop\<close>

text \<open>The local variables of \<open>main\<close> that stay fixed while the loop runs.\<close>

record config =
  cfg_n_speech_samples :: nat
  cfg_n_nom_modem_samples :: nat
  cfg_use_codectx :: int
  cfg_data_threshold :: real

text \<open>
  What the loop changes: the input still to be read, the blocks written so far (one
  entry for each \<^verbatim>\<open>fwrite\<close>), the \<^verbatim>\<open>mod_out\<close> buffer, and the states behind the
  \<^verbatim>\<open>freedv\<close> and \<^verbatim>\<open>c2\<close> pointers (\<open>None\<close>: \<^verbatim>\<open>c2\<close> was never assigned).
\<close>

record ('f, 'c) loop_state =
  ls_fin :: "short list"
  ls_fout :: "short list list"
  ls_mod_out :: "short list"
  ls_freedv :: 'f
  ls_c2 :: "'c option"

text \<open>How the process ends: \<^verbatim>\<open>exit(n)\<close>, \<^verbatim>\<open>return n\<close> from \<open>main\<close>, a failed
  \<^verbatim>\<open>assert\<close>, or a fatal signal (null pointer, integer division by zero).\<close>

datatype ending = Exit int | Return int | Abort | Crash

text \<open>\<^verbatim>\<open>use_codectx == 0\<close>: the library encodes and modulates.\<close>

definition integrated_block ::
  "('f, 'c) library \<Rightarrow> env \<Rightarrow> config \<Rightarrow> short list \<Rightarrow> ('f, 'c) loop_state
     \<Rightarrow> ('f, 'c) loop_state" where
  "integrated_block L E cfg speech_in st =
     (let energy = samples_get_energy (float_round E) speech_in (cfg_n_speech_samples cfg) in
      case frame_decision energy (cfg_data_threshold cfg) of
        DATA \<Rightarrow>
          (let (f, samples) = freedv_datatx L (ls_freedv st)
           in st\<lparr>ls_freedv := f, ls_mod_out := store_at (ls_mod_out st) 0 samples\<rparr>)
      | VOICE \<Rightarrow>
          (let (f, samples) = freedv_tx L (ls_freedv st) speech_in
           in st\<lparr>ls_freedv := f, ls_mod_out := store_at (ls_mod_out st) 0 samples\<rparr>))"

text \<open>
  The loop \<^verbatim>\<open>for (i = 0; i < codec_frames; i++)\<close> of the other branch: \<open>enc_frame\<close> is
  \<open>encoded + i * bytes_per_codec_frame\<close> and \<open>speech_frame\<close> is
  \<open>speech_in + i * samples_per_frame\<close>.
\<close>

function encode_loop ::
  "('f, 'c) library \<Rightarrow> (real \<Rightarrow> real) \<Rightarrow> short list \<Rightarrow> nat \<Rightarrow> nat \<Rightarrow> nat \<Rightarrow> nat
     \<Rightarrow> 'c \<times> uint8_t list \<times> real \<Rightarrow> 'c \<times> uint8_t list \<times> real" where
  "encode_loop L fl speech_in bytes_per_codec_frame samples_per_frame codec_frames i
       (c2, encoded, energy) =
     (if i < codec_frames then
        (let (c2', bits) = codec2_encode L c2 (drop (i * samples_per_frame) speech_in);
             encoded' = store_at encoded (i * bytes_per_codec_frame) bits;
             energy' = fl (energy +
                 codec2_get_energy L c2' (drop (i * bytes_per_codec_frame) encoded'))
         in encode_loop L fl speech_in bytes_per_codec_frame samples_per_frame codec_frames
              (Suc i) (c2', encoded', energy'))
      else (c2, encoded, energy))"
  by pat_completeness auto
termination
  by (relation "measure (\<lambda>(L, fl, speech_in, b, s, codec_frames, i, x). codec_frames - i)") auto

text \<open>
  \<^verbatim>\<open>use_codectx != 0\<close>: the program encodes with its own codec and hands the frames to
  the modem. \<^verbatim>\<open>VLA_CALLOC\<close> gives zero-filled buffers. \<open>encode_block\<close> is the part up
  to \<^verbatim>\<open>energy /= codec_frames\<close>: it returns the codec state, the \<open>encoded\<close> buffer and the
  energy, which is \<^verbatim>\<open>0.0f / 0\<close> when \<open>codec_frames = 0\<close>.
\<close>

definition encode_block ::
  "('f, 'c) library \<Rightarrow> (real \<Rightarrow> real) \<Rightarrow> nat \<Rightarrow> nat \<Rightarrow> 'c \<Rightarrow> short list
     \<Rightarrow> 'c \<times> uint8_t list \<times> c_float" where
  "encode_block L fl bits_per_codec_frame bits_per_modem_frame c2 speech_in =
     (let bytes_per_codec_frame = (bits_per_codec_frame + 7) div 8;
          codec_frames = bits_per_modem_frame div bits_per_codec_frame;
          samples_per_frame = codec2_samples_per_frame L c2;
          encoded = replicate (bytes_per_codec_frame * codec_frames) 0;
          (c2', encoded', e) =
             encode_loop L fl speech_in bytes_per_codec_frame samples_per_frame codec_frames 0
               (c2, encoded, 0)
      in (c2', encoded',
          if codec_frames = 0 then None else Some (fl (e / fl (of_nat codec_frames)))))"

text \<open>
  "Use the freedv_api to modulate already encoded frames":
  \<^verbatim>\<open>freedv_rawdata_from_codec_frames(freedv, rawdata, encoded);\<close>
  \<^verbatim>\<open>freedv_rawdatatx(freedv, mod_out, rawdata);\<close>
\<close>

definition modulate_frames ::
  "('f, 'c) library \<Rightarrow> 'f \<Rightarrow> uint8_t list \<Rightarrow> 'f \<times> short list" where
  "modulate_frames L freedv encoded =
     (let bytes_per_modem_frame = (freedv_get_bits_per_modem_frame L freedv + 7) div 8;
          rawdata = replicate bytes_per_modem_frame 0;
          rawdata' = store_at rawdata 0 (freedv_rawdata_from_codec_frames L freedv encoded)
      in freedv_rawdatatx L freedv rawdata')"

text \<open>The whole branch. Dividing by a \<open>bits_per_codec_frame\<close> of 0 ends the process.\<close>

definition split_block ::
  "('f, 'c) library \<Rightarrow> env \<Rightarrow> config \<Rightarrow> short list \<Rightarrow> ('f, 'c) loop_state
     \<Rightarrow> ending + ('f, 'c) loop_state" where
  "split_block L E cfg speech_in st =
     (case ls_c2 st of
        None \<Rightarrow> Inl Crash
      | Some c2 \<Rightarrow>
          (let bits_per_codec_frame = freedv_get_bits_per_codec_frame L (ls_freedv st);
               bits_per_modem_frame = freedv_get_bits_per_modem_frame L (ls_freedv st)
           in if bits_per_codec_frame = 0 then Inl Crash
              else
               (let (c2', encoded, energy) =
                       encode_block L (float_round E) bits_per_codec_frame
                         bits_per_modem_frame c2 speech_in
                in case frame_decision energy (cfg_data_threshold cfg) of
                     DATA \<Rightarrow>
                       (let (f, samples) = freedv_datatx L (ls_freedv st)
                        in Inr (st\<lparr>ls_freedv := f, ls_c2 := Some c2',
                                    ls_mod_out := store_at (ls_mod_out st) 0 samples\<rparr>))
                   | VOICE \<Rightarrow>
                       (let (f, samples) = modulate_frames L (ls_freedv st) encoded
                        in Inr (st\<lparr>ls_freedv := f, ls_c2 := Some c2',
                                    ls_mod_out := store_at (ls_mod_out st) 0 samples\<rparr>)))))"

text \<open>
  The body of the \<^verbatim>\<open>while\<close> loop for the block just read into \<open>speech_in\<close>, ending with
  \<^verbatim>\<open>fwrite(mod_out, sizeof(short), n_nom_modem_samples, fout)\<close>.
\<close>

definition process_block ::
  "('f, 'c) library \<Rightarrow> env \<Rightarrow> config \<Rightarrow> short list \<Rightarrow> ('f, 'c) loop_state
     \<Rightarrow> ending + ('f, 'c) loop_state" where
  "process_block L E cfg speech_in st =
     (case (if cfg_use_codectx cfg = 0 then Inr (integrated_block L E cfg speech_in st)
            else split_block L E cfg speech_in st) of
        Inl e \<Rightarrow> Inl e
      | Inr st' \<Rightarrow>
          Inr (st'\<lparr>ls_fout := ls_fout st' @
                     [take (cfg_n_nom_modem_samples cfg) (ls_mod_out st')]\<rparr>))"

text \<open>
  \<^verbatim>\<open>while (fread(speech_in, sizeof(short), n_speech_samples, fin) == n_speech_samples)\<close>:
  \<^verbatim>\<open>fread\<close> delivers a full block while the input holds one, and otherwise what is
  left, which ends the loop. The result is \<open>Inr\<close> the state after the loop, or \<open>Inl\<close> the
  fatal ending with the state it happened in. A loop that never ends has the value
  \<open>None\<close>.
\<close>

partial_function (option) main_loop ::
  "('f, 'c) library \<Rightarrow> env \<Rightarrow> config \<Rightarrow> ('f, 'c) loop_state
     \<Rightarrow> (ending \<times> ('f, 'c) loop_state + ('f, 'c) loop_state) option" where
  "main_loop L E cfg st =
     (if cfg_n_speech_samples cfg \<le> length (ls_fin st) then
        (case process_block L E cfg (take (cfg_n_speech_samples cfg) (ls_fin st))
                (st\<lparr>ls_fin := drop (cfg_n_speech_samples cfg) (ls_fin st)\<rparr>) of
           Inl e \<Rightarrow> Some (Inl (e, st))
         | Inr st' \<Rightarrow> main_loop L E cfg st')
      else Some (Inr (st\<lparr>ls_fin := []\<rparr>)))"

declare main_loop.simps [code]

subsection \<open>Start-up and the whole program\<close>

text \<open>What is observed of a run: how it ended, what \<open>main\<close> itself printed, the blocks
  written to the output stream, and the \<^verbatim>\<open>freedv\<close> state as it was last (if one was
  opened). The diagnostics of a failed \<^verbatim>\<open>assert\<close> and of the library are not recorded.\<close>

record 'f result =
  res_ending :: ending
  res_stdout :: string
  res_stderr :: string
  res_fout :: "short list list"
  res_freedv :: "'f option"

definition ended :: "ending \<Rightarrow> string \<Rightarrow> string \<Rightarrow> 'f result" where
  "ended e out err =
     \<lparr>res_ending = e, res_stdout = out, res_stderr = err, res_fout = [], res_freedv = None\<rparr>"

text \<open>
  The \<^verbatim>\<open>mode = -1; if (!strcmp(argv[1], ...)) mode = ...;\<close> lines.
\<close>

definition parse_mode :: "('f, 'c) library \<Rightarrow> string \<Rightarrow> int" where
  "parse_mode L arg =
     (let mode = - 1;
          mode = (if arg = ''2400A'' then FREEDV_MODE_2400A L else mode);
          mode = (if arg = ''2400B'' then FREEDV_MODE_2400B L else mode);
          mode = (if arg = ''800XA'' then FREEDV_MODE_800XA L else mode)
      in mode)"

text \<open>The local variables the option loop assigns (\<open>None\<close>: a null \<^verbatim>\<open>char *\<close>).\<close>

record 'c options =
  opt_callsign :: "string option"
  opt_ssid :: int
  opt_multicast :: bool
  opt_use_codectx :: int
  opt_c2 :: "'c option"
  opt_data_threshold :: real

text \<open>
  \<^verbatim>\<open>for (i = 4; i < argc; i++)\<close> over the arguments from \<open>argv[4]\<close> on; \<open>argv[i + 1]\<close>
  behind the last argument is the null pointer that ends \<open>argv\<close>. The five tests of one
  pass compare \<open>argv[i]\<close> with five different strings, so at most one of them holds.
\<close>

fun parse_args ::
  "('f, 'c) library \<Rightarrow> env \<Rightarrow> int \<Rightarrow> string list \<Rightarrow> 'c options \<Rightarrow> ending + 'c options" where
  "parse_args L E mode [] opts = Inr opts"
| "parse_args L E mode (arg # rest) opts =
     (let next = (case rest of [] \<Rightarrow> None | v # _ \<Rightarrow> Some v) in
      if arg = ''--codectx'' then
        (let c2_mode =
               (if mode = FREEDV_MODE_700C L \<or> mode = FREEDV_MODE_700D L \<or>
                   mode = FREEDV_MODE_800XA L
                then CODEC2_MODE_700C L else CODEC2_MODE_1300 L)
         in case codec2_create L c2_mode of
              None \<Rightarrow> Inl Abort
            | Some c2 \<Rightarrow>
                parse_args L E mode rest (opts\<lparr>opt_use_codectx := 1, opt_c2 := Some c2\<rparr>))
      else if arg = ''--callsign'' then
        parse_args L E mode rest (opts\<lparr>opt_callsign := next\<rparr>)
      else if arg = ''--ssid'' then
        (case next of
           None \<Rightarrow> Inl Crash
         | Some v \<Rightarrow> parse_args L E mode rest (opts\<lparr>opt_ssid := atoi v\<rparr>))
      else if arg = ''--mac-multicast'' then
        (case next of
           None \<Rightarrow> Inl Crash
         | Some v \<Rightarrow> parse_args L E mode rest (opts\<lparr>opt_multicast := (atoi v \<noteq> 0)\<rparr>))
      else if arg = ''--data-threshold'' then
        (case next of
           None \<Rightarrow> Inl Crash
         | Some v \<Rightarrow>
             parse_args L E mode rest (opts\<lparr>opt_data_threshold := float_round E (atof E v)\<rparr>))
      else parse_args L E mode rest opts)"

definition usage :: "string \<Rightarrow> string" where
  "usage prog =
     ''usage: '' @ prog @ '' 2400A|2400B|800XA InputRawSpeechFile OutputModemRawFile'' @
     [CHR 0x0A] @
     '' [--codectx]  [--callsign callsign] [--ssid ssid] [--mac-multicast 0|1] '' @
     ''[--data-threshold val]'' @ [CHR 0x0A] @
     ''e.g    '' @ prog @ '' 2400A hts1a.raw hts1a_fdmdv.raw'' @ [CHR 0x0A]"

text \<open>
  The callback \<^verbatim>\<open>my_datarx\<close>, registered next to \<open>my_datatx\<close>, only prints a message
  and is left out. "Generate our address": the call \<^verbatim>\<open>eth_ar_call2mac(my_cb_state.mac, callsign, ssid,
  multicast);\<close> is a statement of its own, so its \<^verbatim>\<open>int\<close> result is dropped and only the
  buffer goes on. With a null \<open>callsign\<close> the call reaches \<^verbatim>\<open>strlen\<close> unless the SSID
  test returns first.
\<close>

definition generate_address :: "env \<Rightarrow> 'c options \<Rightarrow> ending + uint8_t list" where
  "generate_address E opts =
     (case opt_callsign opts of
        None \<Rightarrow>
          if opt_ssid opts > 15 \<or> opt_ssid opts < 0 then Inr (stack_mac E) else Inl Crash
      | Some callsign \<Rightarrow>
          Inr (snd (eth_ar_call2mac (stack_mac E) callsign (opt_ssid opts) (opt_multicast opts))))"

text \<open>From \<^verbatim>\<open>freedv_open\<close> to the end of \<open>main\<close>.\<close>

definition run_session ::
  "('f, 'c) library \<Rightarrow> env \<Rightarrow> int \<Rightarrow> short list \<Rightarrow> 'c options \<Rightarrow> 'f result option" where
  "run_session L E mode fin opts =
     (case freedv_open L mode of
        None \<Rightarrow> Some (ended Abort [] [])
      | Some freedv \<Rightarrow>
          (case generate_address E opts of
             Inl e \<Rightarrow> Some ((ended e [] [])\<lparr>res_freedv := Some freedv\<rparr>)
           | Inr mac \<Rightarrow>
               (let f1 = freedv_set_data_header L freedv mac;
                    f2 = freedv_set_verbose L f1 1;
                    n_speech_samples = freedv_get_n_speech_samples L f2;
                    n_nom_modem_samples = freedv_get_n_nom_modem_samples L f2
                in if \<not> malloc_ok E (2 * n_speech_samples) \<or>
                      \<not> malloc_ok E (2 * n_nom_modem_samples)
                   then Some ((ended Abort [] [])\<lparr>res_freedv := Some f2\<rparr>)
                   else
                    (let f3 = freedv_set_callback_data L f2 my_datatx
                                (0, \<lparr>cb_calls = stack_calls E, cb_mac = mac\<rparr>);
                         cfg = \<lparr>cfg_n_speech_samples = n_speech_samples,
                                cfg_n_nom_modem_samples = n_nom_modem_samples,
                                cfg_use_codectx = opt_use_codectx opts,
                                cfg_data_threshold = opt_data_threshold opts\<rparr>;
                         st = \<lparr>ls_fin = fin, ls_fout = [],
                               ls_mod_out = map (heap_short E) [0..<n_nom_modem_samples],
                               ls_freedv = f3, ls_c2 = opt_c2 opts\<rparr>
                     in case main_loop L E cfg st of
                          None \<Rightarrow> None
                        | Some (Inl (e, st')) \<Rightarrow>
                            Some \<lparr>res_ending = e, res_stdout = [], res_stderr = [],
                                  res_fout = ls_fout st',
                                  res_freedv = Some (ls_freedv st')\<rparr>
                        | Some (Inr st') \<Rightarrow>
                            Some \<lparr>res_ending = Return 0, res_stdout = [], res_stderr = [],
                                  res_fout = ls_fout st',
                                  res_freedv = Some (ls_freedv st')\<rparr>))))"

definition main :: "('f, 'c) library \<Rightarrow> env \<Rightarrow> string list \<Rightarrow> 'f result option" where
  "main L E argv =
     (if length argv < 4 then
        Some (ended (Exit 1) (usage (case argv of [] \<Rightarrow> ''(null)'' | prog # _ \<Rightarrow> prog)) [])
      else
       (let mode = parse_mode L (argv ! 1) in
        if mode = - 1 then
          Some (ended (Exit 0) [] (''Error in mode: '' @ argv ! 1 @ [CHR 0x0A]))
        else
         (case (if argv ! 2 = ''-'' then Inr (stdin_samples E) else fopen_rb E (argv ! 2)) of
            Inl msg \<Rightarrow>
              Some (ended (Exit 1) []
                (''Error opening input raw speech sample file: '' @ argv ! 2 @ '': '' @ msg @
                 ''.'' @ [CHR 0x0A]))
          | Inr fin \<Rightarrow>
              (case (if argv ! 3 = ''-'' then Inr () else fopen_wb E (argv ! 3)) of
                 Inl msg \<Rightarrow>
                   Some (ended (Exit 1) []
                     (''Error opening output modem sample file: '' @ argv ! 3 @ '': '' @ msg @
                      ''.'' @ [CHR 0x0A]))
               | Inr u \<Rightarrow>
                   (case parse_args L E mode (drop 4 argv)
                           \<lparr>opt_callsign = Some ''NOCALL'', opt_ssid = 0,
                            opt_multicast = False, opt_use_codectx = 0, opt_c2 = None,
                            opt_data_threshold = 15\<rparr> of
                      Inl e \<Rightarrow> Some (ended e [] [])
                    | Inr opts \<Rightarrow> run_session L E mode fin opts)))))"

subsection \<open>The library's voice transmission, from its description\<close>

text \<open>
  Modelled from the spec: the library function \<^verbatim>\<open>freedv_tx\<close> (its file
  \<^verbatim>\<open>freedv_api.c\<close> is not among the sources at hand). The description says that in the
  integrated mode the session does speech encoding and modulation itself, that the codec
  offers "encode(samples)->bytes" for one frame of its per-frame sample count, that the
  raw-frame conversion packs "one or more encoded codec frames into one modem frame's raw
  bit layout" and then modulates the raw bits into a modem sample block, and that both
  modes "ultimately drive the same codec+modem conversion with the same inputs".
  So the session cuts the block into the codec frames that fill one modem frame, encodes
  them in order with the codec it owns, packs the encoded frames and modulates them.
  \<open>codec_of\<close> and \<open>with_codec\<close> read and replace the codec state inside a session.
\<close>

definition spec_sub_frames :: "nat \<Rightarrow> nat \<Rightarrow> short list \<Rightarrow> short list list" where
  "spec_sub_frames codec_frames samples_per_frame speech =
     map (\<lambda>i. take samples_per_frame (drop (i * samples_per_frame) speech)) [0..<codec_frames]"

fun spec_encode_frames ::
  "('f, 'c) library \<Rightarrow> 'c \<Rightarrow> short list list \<Rightarrow> 'c \<times> uint8_t list" where
  "spec_encode_frames L c [] = (c, [])"
| "spec_encode_frames L c (frame # frames) =
     (let (c', bytes) = codec2_encode L c frame;
          (c'', more) = spec_encode_frames L c' frames
      in (c'', bytes @ more))"

definition spec_freedv_tx ::
  "('f, 'c) library \<Rightarrow> ('f \<Rightarrow> 'c) \<Rightarrow> ('c \<Rightarrow> 'f \<Rightarrow> 'f) \<Rightarrow> 'f \<Rightarrow> short list \<Rightarrow> 'f \<times> short list" where
  "spec_freedv_tx L codec_of with_codec freedv speech =
     (let codec_frames = freedv_get_bits_per_modem_frame L freedv div
                         freedv_get_bits_per_codec_frame L freedv;
          samples_per_frame = codec2_samples_per_frame L (codec_of freedv);
          (c, encoded) = spec_encode_frames L (codec_of freedv)
                           (spec_sub_frames codec_frames samples_per_frame speech);
          raw = freedv_rawdata_from_codec_frames L freedv encoded;
          (f, samples) = freedv_rawdatatx L freedv raw
      in (with_codec c f, samples))"


subsection \<open>A stand-in library and environment\<close>

text \<open>
  Concrete values for the parameters, used only to evaluate the program on explicit
  inputs: a session state is the pair of its codec's state and the data header it was
  given, a codec state the number of frames encoded. The codec reads frames of 2 samples
  and encodes a frame as the low byte of its first sample, which it also reports as the
  frame's energy; a modem frame holds two codec frames; a modem block has 3 samples.
  The mode and codec numbers are those of the library's headers.
\<close>

definition demo_base :: "(nat \<times> uint8_t list, nat) library" where
  "demo_base =
     \<lparr>FREEDV_MODE_2400A = 3, FREEDV_MODE_2400B = 4, FREEDV_MODE_800XA = 5,
      FREEDV_MODE_700C = 6, FREEDV_MODE_700D = 7,
      CODEC2_MODE_700C = 8, CODEC2_MODE_1300 = 4,
      codec2_create = (\<lambda>m. Some 0),
      codec2_samples_per_frame = (\<lambda>c. 2),
      codec2_encode = (\<lambda>c s. (Suc c, [case s of [] \<Rightarrow> 0 | x # _ \<Rightarrow> ucast x])),
      codec2_get_energy = (\<lambda>c bits. case bits of [] \<Rightarrow> 0 | b # _ \<Rightarrow> of_nat (unat b)),
      freedv_open = (\<lambda>m. Some (0, [])),
      freedv_set_data_header = (\<lambda>f m. (fst f, m)),
      freedv_set_verbose = (\<lambda>f v. f),
      freedv_get_n_speech_samples = (\<lambda>f. 4),
      freedv_get_n_nom_modem_samples = (\<lambda>f. 3),
      freedv_set_callback_data = (\<lambda>f cb s. f),
      freedv_get_bits_per_codec_frame = (\<lambda>f. 8),
      freedv_get_bits_per_modem_frame = (\<lambda>f. 16),
      freedv_datatx = (\<lambda>f. (f, [7, 7, 7])),
      freedv_tx = (\<lambda>f s. (f, [])),
      freedv_rawdata_from_codec_frames = (\<lambda>f encoded. take 2 (encoded @ [0, 0])),
      freedv_rawdatatx = (\<lambda>f raw. (f, map ucast raw @ [0]))\<rparr>"

text \<open>Its \<^verbatim>\<open>freedv_tx\<close> is the one the description gives, over the other functions.\<close>

definition demo_library :: "(nat \<times> uint8_t list, nat) library" where
  "demo_library =
     demo_base\<lparr>freedv_tx := spec_freedv_tx demo_base fst (\<lambda>c f. (c, snd f))\<rparr>"


definition demo_env :: "short list \<Rightarrow> env" where
  "demo_env input =
     \<lparr>fopen_rb = (\<lambda>name. Inr input), fopen_wb = (\<lambda>name. Inr ()), stdin_samples = input,
      atof = (\<lambda>s. of_int (atoi s)), float_round = (\<lambda>x. x), malloc_ok = (\<lambda>n. True),
      stack_calls = 0, stack_mac = [0xde, 0xad, 0xbe, 0xef, 0x00, 0x01],
      heap_short = (\<lambda>i. 0)\<rparr>"

section \<open>Properties of the address encoder\<close>

lemma scan_code_le: "scan_code xs c j \<le> j + length xs"
proof (induction xs arbitrary: j)
  case Nil
  then show ?case by simp
next
  case (Cons a xs)
  from Cons[of "Suc j"] show ?case by simp
qed

lemma scan_code_full_iff: "scan_code xs c j = j + length xs \<longleftrightarrow> c \<notin> set xs"
proof (induction xs arbitrary: j)
  case Nil
  then show ?case by simp
next
  case (Cons a xs)
  from Cons[of "Suc j"] show ?case by simp
qed

lemma length_alnum2code: "length alnum2code = 37"
  by (simp add: alnum2code_def)

lemma scan_alnum_lt: "c \<in> set alnum2code \<Longrightarrow> scan_code alnum2code c 0 < 37"
  using scan_code_le[of alnum2code c 0] scan_code_full_iff[of alnum2code c 0]
  by (simp add: length_alnum2code)

lemma scan_alnum_invalid: "scan_code alnum2code c 0 = 37 \<longleftrightarrow> c \<notin> set alnum2code"
  using scan_code_full_iff[of alnum2code c 0] by (simp add: length_alnum2code)

lemma call2mac_loop_closed:
  "\<forall>p<n. padded_char callsign p \<in> set alnum2code \<Longrightarrow>
   call2mac_loop callsign n add =
     Some (add * 37 ^ n + of_nat (\<Sum>p<n. scan_code alnum2code (padded_char callsign p) 0 * 37 ^ p))"
proof (induction n arbitrary: add)
  case 0
  then show ?case by simp
next
  case (Suc n)
  have valid: "padded_char callsign n \<in> set alnum2code" using Suc.prems by simp
  then have ne: "scan_code alnum2code (padded_char callsign n) 0 \<noteq> length alnum2code"
    using scan_alnum_lt[OF valid] by (simp add: length_alnum2code)
  have "\<forall>p<n. padded_char callsign p \<in> set alnum2code" using Suc.prems by simp
  note IH = Suc.IH[OF this]
  show ?case
    using ne by (simp add: Let_def IH algebra_simps)
qed

lemma call2mac_loop_invalid:
  "\<exists>p<n. padded_char callsign p \<notin> set alnum2code \<Longrightarrow> call2mac_loop callsign n add = None"
proof (induction n arbitrary: add)
  case 0
  then show ?case by simp
next
  case (Suc n)
  show ?case
  proof (cases "padded_char callsign n \<in> set alnum2code")
    case True
    with Suc.prems have "\<exists>p<n. padded_char callsign p \<notin> set alnum2code"
      by (metis less_Suc_eq)
    from Suc.IH[OF this] show ?thesis by (simp add: Let_def)
  next
    case False
    then show ?thesis by (simp add: Let_def scan_alnum_invalid length_alnum2code)
  qed
qed

lemma NUL_in_alnum2code: "CHR 0x00 \<in> set alnum2code"
  by (simp add: alnum2code_def)

lemma scan_NUL: "scan_code alnum2code (CHR 0x00) 0 = 36"
  by (simp add: alnum2code_def)

lemma base37_sum_bound:
  assumes "\<forall>p<n. d p < (37::nat)"
  shows "(\<Sum>p<n. d p * 37 ^ p) < 37 ^ n"
  using assms
proof (induction n)
  case 0
  then show ?case by simp
next
  case (Suc n)
  have low: "(\<Sum>p<n. d p * 37 ^ p) < 37 ^ n" using Suc by simp
  have "d n \<le> 36" using Suc.prems by (simp add: less_Suc_eq_le[symmetric])
  then have high: "d n * 37 ^ n \<le> 36 * 37 ^ n" by (rule mult_le_mono1)
  have "(\<Sum>p<Suc n. d p * 37 ^ p) = (\<Sum>p<n. d p * 37 ^ p) + d n * 37 ^ n" by simp
  moreover have "(37::nat) ^ Suc n = 37 * 37 ^ n" by simp
  ultimately show ?case using low high by linarith
qed

lemma padded_char_valid:
  assumes "\<forall>p<min (strlen callsign) 8. toupper (callsign ! p) \<in> set alnum2code"
  shows "\<forall>p<8. padded_char callsign p \<in> set alnum2code"
  using assms by (auto simp: padded_char_def NUL_in_alnum2code)

lemma padded_code:
  "scan_code alnum2code (padded_char callsign p) 0 =
     (if p < strlen callsign then scan_code alnum2code (toupper (callsign ! p)) 0 else 36)"
  by (simp add: padded_char_def scan_NUL)

text \<open>
  Claim C2. When the first \<open>min (strlen callsign) 8\<close> characters of the callsign are,
  after \<open>toupper\<close>, in the 37-entry table, the loop returns an accumulator, and that
  accumulator is the base-37 number whose digit of weight \<open>37 ^ p\<close> is the table index
  of the character at position \<open>p\<close>; a position at or beyond the callsign's length
  contributes the index 36 of the table's last entry. Position 0 is the least significant
  digit. The \<^verbatim>\<open>uint64_t\<close> arithmetic does not wrap: the value is read with \<open>unat\<close>.
\<close>

theorem call2mac_base37:
  assumes "\<forall>p<min (strlen callsign) 8. toupper (callsign ! p) \<in> set alnum2code"
  shows "\<exists>add. call2mac_loop callsign 8 0 = Some add \<and>
           unat add = (\<Sum>p<8. (if p < strlen callsign
                                 then scan_code alnum2code (toupper (callsign ! p)) 0
                                 else 36) * 37 ^ p)"
proof -
  let ?d = "\<lambda>p. scan_code alnum2code (padded_char callsign p) 0"
  have valid: "\<forall>p<8. padded_char callsign p \<in> set alnum2code"
    using assms by (rule padded_char_valid)
  then have "\<forall>p<8. ?d p < 37" by (simp add: scan_alnum_lt)
  then have "(\<Sum>p<8. ?d p * 37 ^ p) < 37 ^ 8" by (rule base37_sum_bound)
  also have "(37::nat) ^ 8 < 2 ^ 64" by simp
  finally have small: "(\<Sum>p<8. ?d p * 37 ^ p) < 2 ^ 64" .
  have "call2mac_loop callsign 8 0 = Some (of_nat (\<Sum>p<8. ?d p * 37 ^ p))"
    using call2mac_loop_closed[OF valid, of 0] by simp
  moreover have "unat (of_nat (\<Sum>p<8. ?d p * 37 ^ p) :: uint64_t) = (\<Sum>p<8. ?d p * 37 ^ p)"
    unfolding unat_of_nat using small by simp
  ultimately show ?thesis by (simp add: padded_code)
qed

lemma toupper_NOCALL:
  "toupper (CHR ''N'') = CHR ''N''" "toupper (CHR ''O'') = CHR ''O''"
  "toupper (CHR ''C'') = CHR ''C''" "toupper (CHR ''A'') = CHR ''A''"
  "toupper (CHR ''L'') = CHR ''L''"
  by (simp_all add: toupper_def)

lemma scan_NOCALL:
  "scan_code alnum2code (CHR ''N'') 0 = 23" "scan_code alnum2code (CHR ''O'') 0 = 24"
  "scan_code alnum2code (CHR ''C'') 0 = 12" "scan_code alnum2code (CHR ''A'') 0 = 10"
  "scan_code alnum2code (CHR ''L'') 0 = 21"
  by (simp_all add: alnum2code_def)

lemma strlen_NOCALL: "strlen ''NOCALL'' = 6"
  by (simp add: strlen_def)

lemma NOCALL_valid:
  "\<forall>p<min (strlen ''NOCALL'') 8. toupper (''NOCALL'' ! p) \<in> set alnum2code"
  unfolding strlen_NOCALL
  by (simp add: All_less_Suc eval_nat_numeral toupper_NOCALL alnum2code_def)

theorem call2mac_base37_witness:
  "\<exists>add. call2mac_loop ''NOCALL'' 8 0 = Some add \<and>
     unat add = 23 + 24 * 37 + 12 * 37 ^ 2 + 10 * 37 ^ 3 + 21 * 37 ^ 4 + 21 * 37 ^ 5
                + 36 * 37 ^ 6 + 36 * 37 ^ 7"
proof -
  have s8: "{..<8::nat} = {0, 1, 2, 3, 4, 5, 6, 7}" by auto
  from call2mac_base37[OF NOCALL_valid] show ?thesis
    by (simp add: strlen_NOCALL toupper_NOCALL scan_NOCALL s8)
qed

lemma c0_mask: "(0xc0 :: uint64_t) = push_bit 6 (mask 2)"
  by (simp add: mask_eq_exp_minus_1)

lemma ff_mask: "(0xff :: uint64_t) = mask 8"
  by (simp add: mask_eq_exp_minus_1)

lemma top_bits:
  "(drop_bit (40 - 6) (w::uint64_t)) AND 0xc0 = push_bit 6 (take_bit 2 (drop_bit 40 w))"
  unfolding c0_mask
  by (rule bit_eqI) (auto simp add: bit_simps)

lemma low_byte_drop: "(ucast ((drop_bit k (w::uint64_t)) AND 0xff) :: uint8_t) = ucast (drop_bit k w)"
  unfolding ff_mask by (rule bit_eqI) (auto simp add: bit_simps)

lemma low_byte: "(ucast ((w::uint64_t) AND 0xff) :: uint8_t) = ucast w"
  unfolding ff_mask by (rule bit_eqI) (auto simp add: bit_simps)

lemma ssid_bits:
  assumes "0 \<le> (ssid::int)" "ssid \<le> 15" "bit ssid n"
  shows "n < 4"
proof -
  have "take_bit 4 ssid = ssid" using assms by (simp add: take_bit_int_eq_self)
  then have "bit (take_bit 4 ssid) n" using assms by simp
  then show ?thesis by (simp add: bit_take_bit_iff)
qed

lemma ssid_word:
  assumes "0 \<le> ssid" "ssid \<le> 15"
  shows "(word_of_int (ssid * 2 ^ 2) :: uint64_t) = push_bit 2 (take_bit 4 (word_of_int ssid))"
proof -
  have "take_bit 4 ssid = ssid" using assms by (simp add: take_bit_int_eq_self)
  then have "(take_bit 4 (word_of_int ssid) :: uint64_t) = word_of_int ssid"
    by (simp add: take_bit_of_int)
  then show ?thesis by (simp add: push_bit_eq_mult)
qed

lemma mac0_byte_alt:
  assumes "0 \<le> ssid" "ssid \<le> 15"
  shows "mac0_byte add ssid multicast =
     ucast (push_bit 6 (take_bit 2 (drop_bit 40 add)) OR push_bit 2 (take_bit 4 (word_of_int ssid))
            OR push_bit 1 1 OR (if multicast then 1 else (0::uint64_t)))"
  unfolding mac0_byte_def top_bits ssid_word[OF assms] by simp

lemma small_add_high_bits:
  assumes "unat (add::uint64_t) < 2 ^ 42"
  shows "drop_bit 42 add = 0"
proof -
  from assms have "unat (drop_bit 42 add) = 0"
    unfolding unat_drop_bit_eq by (simp add: drop_bit_eq_div)
  then show ?thesis by (simp add: unsigned_eq_0_iff)
qed

lemma small_add_bit:
  assumes "unat (add::uint64_t) < 2 ^ 42" "bit add m"
  shows "m < 42"
proof (rule ccontr)
  assume "\<not> m < 42"
  then have "bit (drop_bit 42 add) (m - 42)" using assms(2) by (simp add: bit_simps)
  then show False using small_add_high_bits[OF assms(1)] by simp
qed

lemma mac0_top:
  assumes "0 \<le> ssid" "ssid \<le> 15" "unat add < 2 ^ 42"
  shows "drop_bit 6 (mac0_byte add ssid multicast) = ucast (drop_bit 40 add)"
  unfolding mac0_byte_alt[OF assms(1,2)]
  apply (rule bit_eqI)
  apply (auto simp add: bit_simps dest: ssid_bits[OF assms(1,2)] small_add_bit[OF assms(3)])
  done

lemma mac0_ssid:
  assumes "0 \<le> ssid" "ssid \<le> 15"
  shows "take_bit 4 (drop_bit 2 (mac0_byte add ssid multicast)) = word_of_int ssid"
  unfolding mac0_byte_alt[OF assms(1,2)]
  apply (rule bit_eqI)
  apply (auto simp add: bit_simps dest: ssid_bits[OF assms(1,2)])
  done

lemma mac0_local:
  assumes "0 \<le> ssid" "ssid \<le> 15"
  shows "bit (mac0_byte add ssid multicast) 1"
  unfolding mac0_byte_alt[OF assms(1,2)]
  by (auto simp add: bit_simps)

lemma mac0_multicast:
  assumes "0 \<le> ssid" "ssid \<le> 15"
  shows "bit (mac0_byte add ssid multicast) 0 = multicast"
  unfolding mac0_byte_alt[OF assms(1,2)]
  by (auto simp add: bit_simps)

lemma call2mac_loop_some:
  assumes "\<forall>p<min (strlen callsign) 8. toupper (callsign ! p) \<in> set alnum2code"
  obtains add where "call2mac_loop callsign 8 0 = Some add" "unat add < 2 ^ 42"
proof -
  let ?d = "\<lambda>p. scan_code alnum2code (padded_char callsign p) 0"
  have valid: "\<forall>p<8. padded_char callsign p \<in> set alnum2code"
    using assms by (rule padded_char_valid)
  then have "\<forall>p<8. ?d p < 37" by (simp add: scan_alnum_lt)
  then have "(\<Sum>p<8. ?d p * 37 ^ p) < 37 ^ 8" by (rule base37_sum_bound)
  also have "(37::nat) ^ 8 < 2 ^ 42" by simp
  finally have small: "(\<Sum>p<8. ?d p * 37 ^ p) < 2 ^ 42" .
  have "(2::nat) ^ 42 < 2 ^ 64" by simp
  with small have small64: "(\<Sum>p<8. ?d p * 37 ^ p) < 2 ^ 64" by (rule less_trans)
  have loop: "call2mac_loop callsign 8 0 = Some (of_nat (\<Sum>p<8. ?d p * 37 ^ p))"
    using call2mac_loop_closed[OF valid, of 0] by simp
  have "unat (of_nat (\<Sum>p<8. ?d p * 37 ^ p) :: uint64_t) = (\<Sum>p<8. ?d p * 37 ^ p)"
    unfolding unat_of_nat using small64 by simp
  with small have "unat (of_nat (\<Sum>p<8. ?d p * 37 ^ p) :: uint64_t) < 2 ^ 42" by simp
  with loop show ?thesis by (rule that)
qed

lemma eth_ar_call2mac_ok:
  assumes "0 \<le> ssid" "ssid \<le> 15" "call2mac_loop callsign 8 0 = Some add" "length mac = 6"
  shows "eth_ar_call2mac mac callsign ssid multicast =
           (0, [mac0_byte add ssid multicast, ucast (drop_bit 32 add), ucast (drop_bit 24 add),
                ucast (drop_bit 16 add), ucast (drop_bit 8 add), ucast add])"
proof -
  from assms(4) obtain a0 a1 a2 a3 a4 a5 where "mac = [a0, a1, a2, a3, a4, a5]"
    by (auto simp: length_Suc_conv eval_nat_numeral)
  then show ?thesis
    using assms(1-3) by (simp add: eth_ar_call2mac_def low_byte_drop low_byte)
qed

lemma eth_ar_call2mac_cases:
  "eth_ar_call2mac mac callsign ssid multicast = (- 1, mac) \<or>
   fst (eth_ar_call2mac mac callsign ssid multicast) = 0"
  by (auto simp: eth_ar_call2mac_def split: option.splits)

lemma char_of_lower:
  assumes "n \<in> set [97..<123]"
  shows "char_of (n::nat) \<in> set ''abcdefghijklmnopqrstuvwxyz''"
proof -
  have "char_of n \<in> char_of ` set [97..<123]"
    using assms by (rule imageI)
  also have "char_of ` set [97..<123::nat] = set ''abcdefghijklmnopqrstuvwxyz''"
    by (simp add: upt_rec_numeral char_of_def bit_Suc_0_iff)
  finally show ?thesis .
qed

lemma char_of_upper:
  assumes "n \<in> set [97..<123]"
  shows "char_of (n - 32 :: nat) \<in> set ''ABCDEFGHIJKLMNOPQRSTUVWXYZ''"
proof -
  have "char_of (n - 32) \<in> (\<lambda>k. char_of (k - 32)) ` set [97..<123]"
    using assms by (rule imageI)
  also have "(\<lambda>k. char_of (k - 32)) ` set [97..<123::nat] = set ''ABCDEFGHIJKLMNOPQRSTUVWXYZ''"
    by (simp add: upt_rec_numeral char_of_def bit_Suc_0_iff)
  finally show ?thesis .
qed

lemma lower_code_range:
  assumes "c \<in> set ''abcdefghijklmnopqrstuvwxyz''"
  shows "(97::nat) \<le> of_char c \<and> (of_char c :: nat) \<le> 122"
  using assms by auto

lemma alnum2code_split:
  "set alnum2code = set ''0123456789'' \<union> set ''ABCDEFGHIJKLMNOPQRSTUVWXYZ'' \<union> {CHR 0x00}"
  by (auto simp: alnum2code_def)

lemma alnum62_split:
  "set ''0123456789ABCDEFGHIJKLMNOPQRSTUVWXYZabcdefghijklmnopqrstuvwxyz'' =
     set ''0123456789'' \<union> set ''ABCDEFGHIJKLMNOPQRSTUVWXYZ'' \<union> set ''abcdefghijklmnopqrstuvwxyz''"
  by auto

lemma toupper_alnum:
  assumes "c \<noteq> CHR 0x00"
  shows "toupper c \<in> set alnum2code \<longleftrightarrow>
         c \<in> set ''0123456789ABCDEFGHIJKLMNOPQRSTUVWXYZabcdefghijklmnopqrstuvwxyz''"
proof (cases "(97::nat) \<le> of_char c \<and> (of_char c :: nat) \<le> 122")
  case True
  then have "(of_char c :: nat) \<in> {97..<123}" by simp
  then have n: "(of_char c :: nat) \<in> set [97..<123]" by (simp only: set_upt)
  have "char_of (of_char c :: nat) \<in> set ''abcdefghijklmnopqrstuvwxyz''"
    using n by (rule char_of_lower)
  then have lower: "c \<in> set ''abcdefghijklmnopqrstuvwxyz''" by simp
  have "toupper c = char_of ((of_char c :: nat) - 32)" using True by (simp add: toupper_def)
  then have upper: "toupper c \<in> set ''ABCDEFGHIJKLMNOPQRSTUVWXYZ''"
    using char_of_upper[OF n] by simp
  from lower upper show ?thesis
    unfolding alnum2code_split alnum62_split by blast
next
  case False
  then have same: "toupper c = c" by (auto simp: toupper_def)
  from False have "c \<notin> set ''abcdefghijklmnopqrstuvwxyz''"
    using lower_code_range by blast
  with assms show ?thesis
    unfolding same alnum2code_split alnum62_split by blast
qed

lemma strlen_nth:
  assumes "p < strlen callsign"
  shows "callsign ! p \<noteq> CHR 0x00"
proof -
  from assms have "takeWhile (\<lambda>c. c \<noteq> CHR 0x00) callsign ! p = callsign ! p"
    unfolding strlen_def by (rule takeWhile_nth)
  moreover from assms have "takeWhile (\<lambda>c. c \<noteq> CHR 0x00) callsign ! p
      \<in> set (takeWhile (\<lambda>c. c \<noteq> CHR 0x00) callsign)"
    unfolding strlen_def by (rule nth_mem)
  ultimately show ?thesis by (auto dest: set_takeWhileD)
qed


lemma call2mac_loop_none_iff:
  "call2mac_loop callsign 8 0 = None \<longleftrightarrow>
     (\<exists>p<min (strlen callsign) 8. toupper (callsign ! p) \<notin> set alnum2code)"
proof
  assume none: "call2mac_loop callsign 8 0 = None"
  show "\<exists>p<min (strlen callsign) 8. toupper (callsign ! p) \<notin> set alnum2code"
  proof (rule ccontr)
    assume "\<not> (\<exists>p<min (strlen callsign) 8. toupper (callsign ! p) \<notin> set alnum2code)"
    then have "\<forall>p<min (strlen callsign) 8. toupper (callsign ! p) \<in> set alnum2code" by blast
    then obtain add where "call2mac_loop callsign 8 0 = Some add" by (rule call2mac_loop_some)
    with none show False by simp
  qed
next
  assume "\<exists>p<min (strlen callsign) 8. toupper (callsign ! p) \<notin> set alnum2code"
  then obtain p where p: "p < strlen callsign" "p < 8" "toupper (callsign ! p) \<notin> set alnum2code"
    by auto
  then have "padded_char callsign p \<notin> set alnum2code" by (simp add: padded_char_def)
  with p(2) have "\<exists>p<8. padded_char callsign p \<notin> set alnum2code" by blast
  then show "call2mac_loop callsign 8 0 = None" by (rule call2mac_loop_invalid)
qed

lemma call2mac_loop_none_alnum:
  "call2mac_loop callsign 8 0 = None \<longleftrightarrow>
     (\<exists>p<min (strlen callsign) 8. callsign ! p \<notin>
        set ''0123456789ABCDEFGHIJKLMNOPQRSTUVWXYZabcdefghijklmnopqrstuvwxyz'')"
  unfolding call2mac_loop_none_iff
  using toupper_alnum[OF strlen_nth] by auto

lemma call2mac_loop_numeral:
  "call2mac_loop callsign (numeral k) add =
     (let j = scan_code alnum2code (padded_char callsign (pred_numeral k)) 0
      in if j = 37 then None
         else call2mac_loop callsign (pred_numeral k) (add * 37 + of_nat j))"
  by (simp add: numeral_eq_Suc length_alnum2code Let_def)

lemma call2mac_loop_NOCALL: "call2mac_loop ''NOCALL'' 8 0 = Some 3511409831859"
  by (simp add: call2mac_loop_numeral strlen_NOCALL padded_char_def toupper_NOCALL scan_NOCALL
      scan_NUL length_alnum2code)

text \<open>
  Claim C1, for the 42-bit integer the loop builds. For a callsign whose scanned characters are in the table, an
  SSID in 0..15, a six-byte buffer and either multicast flag, the call succeeds and leaves
  six bytes: the accumulated integer is below \<open>2 ^ 42\<close>; the top two bits of byte 0 are
  bits 41 and 40 of that integer, bits 5..2 of byte 0 are the SSID, bit 1 is set, bit 0
  is the multicast flag; bytes 1..5 are bits 39..0 of the integer, most significant byte
  first. For \<open>NOCALL\<close> with SSID 0 the two addresses differ in the low bit of byte 0 only.
\<close>

theorem call2mac_address_layout:
  assumes "\<forall>p<min (strlen callsign) 8. toupper (callsign ! p) \<in> set alnum2code"
    and "0 \<le> ssid" and "ssid \<le> 15" and "length mac = 6"
  shows "(\<exists>add b0 b1 b2 b3 b4 b5.
            call2mac_loop callsign 8 0 = Some add \<and> unat add < 2 ^ 42 \<and>
            eth_ar_call2mac mac callsign ssid multicast = (0, [b0, b1, b2, b3, b4, b5]) \<and>
            drop_bit 6 b0 = ucast (drop_bit 40 add) \<and>
            take_bit 4 (drop_bit 2 b0) = word_of_int ssid \<and>
            bit b0 1 \<and> bit b0 0 = multicast \<and>
            b1 = ucast (drop_bit 32 add) \<and> b2 = ucast (drop_bit 24 add) \<and>
            b3 = ucast (drop_bit 16 add) \<and> b4 = ucast (drop_bit 8 add) \<and> b5 = ucast add) \<and>
         eth_ar_call2mac mac ''NOCALL'' 0 False = (0, [0xc2, 0x31, 0x90, 0x55, 0xef, 0xb3]) \<and>
         eth_ar_call2mac mac ''NOCALL'' 0 True = (0, [0xc3, 0x31, 0x90, 0x55, 0xef, 0xb3])"
proof -
  from assms(1) obtain add where add: "call2mac_loop callsign 8 0 = Some add" "unat add < 2 ^ 42"
    by (rule call2mac_loop_some)
  note ok = eth_ar_call2mac_ok[OF assms(2,3) add(1) assms(4), of multicast]
  have general: "\<exists>add b0 b1 b2 b3 b4 b5.
            call2mac_loop callsign 8 0 = Some add \<and> unat add < 2 ^ 42 \<and>
            eth_ar_call2mac mac callsign ssid multicast = (0, [b0, b1, b2, b3, b4, b5]) \<and>
            drop_bit 6 b0 = ucast (drop_bit 40 add) \<and>
            take_bit 4 (drop_bit 2 b0) = word_of_int ssid \<and>
            bit b0 1 \<and> bit b0 0 = multicast \<and>
            b1 = ucast (drop_bit 32 add) \<and> b2 = ucast (drop_bit 24 add) \<and>
            b3 = ucast (drop_bit 16 add) \<and> b4 = ucast (drop_bit 8 add) \<and> b5 = ucast add"
    using add ok mac0_top[OF assms(2,3) add(2)] mac0_ssid[OF assms(2,3)]
      mac0_local[OF assms(2,3)] mac0_multicast[OF assms(2,3)]
    by blast
  note nocall = call2mac_loop_NOCALL
  have f: "eth_ar_call2mac mac ''NOCALL'' 0 False = (0, [0xc2, 0x31, 0x90, 0x55, 0xef, 0xb3])"
    using eth_ar_call2mac_ok[OF _ _ nocall assms(4), of 0 False]
    by (simp add: mac0_byte_def)
  have t: "eth_ar_call2mac mac ''NOCALL'' 0 True = (0, [0xc3, 0x31, 0x90, 0x55, 0xef, 0xb3])"
    using eth_ar_call2mac_ok[OF _ _ nocall assms(4), of 0 True]
    by (simp add: mac0_byte_def)
  from general f t show ?thesis by blast
qed

lemma pa3xyz_valid:
  "\<forall>p<min (strlen ''pa3xyz'') 8. toupper (''pa3xyz'' ! p) \<in> set alnum2code"
proof -
  have len: "min (strlen ''pa3xyz'') 8 = 6" by (simp add: strlen_def)
  have up: "toupper (CHR ''p'') = CHR ''P''" "toupper (CHR ''a'') = CHR ''A''"
    "toupper (CHR ''3'') = CHR ''3''" "toupper (CHR ''x'') = CHR ''X''"
    "toupper (CHR ''y'') = CHR ''Y''" "toupper (CHR ''z'') = CHR ''Z''"
    by (simp_all add: toupper_def char_of_def bit_Suc_0_iff)
  show ?thesis unfolding len
    by (simp add: All_less_Suc eval_nat_numeral up alnum2code_def)
qed

theorem call2mac_address_layout_witness:
  "(\<exists>add b0 b1 b2 b3 b4 b5.
      call2mac_loop ''pa3xyz'' 8 0 = Some add \<and> unat add < 2 ^ 42 \<and>
      eth_ar_call2mac [0, 0, 0, 0, 0, 0] ''pa3xyz'' 5 True = (0, [b0, b1, b2, b3, b4, b5]) \<and>
      drop_bit 6 b0 = ucast (drop_bit 40 add) \<and>
      take_bit 4 (drop_bit 2 b0) = word_of_int 5 \<and>
      bit b0 1 \<and> bit b0 0 = True \<and>
      b1 = ucast (drop_bit 32 add) \<and> b2 = ucast (drop_bit 24 add) \<and>
      b3 = ucast (drop_bit 16 add) \<and> b4 = ucast (drop_bit 8 add) \<and> b5 = ucast add) \<and>
   eth_ar_call2mac [0, 0, 0, 0, 0, 0] ''NOCALL'' 0 False = (0, [0xc2, 0x31, 0x90, 0x55, 0xef, 0xb3]) \<and>
   eth_ar_call2mac [0, 0, 0, 0, 0, 0] ''NOCALL'' 0 True = (0, [0xc3, 0x31, 0x90, 0x55, 0xef, 0xb3])"
  by (rule call2mac_address_layout[OF pa3xyz_valid]) simp_all

theorem call2mac_40bit_counterexample:
  "call2mac_loop ''NOCALL'' 8 0 = Some 3511409831859 \<and>
   \<not> unat (3511409831859 :: uint64_t) < 2 ^ 40 \<and>
   eth_ar_call2mac [0, 0, 0, 0, 0, 0] ''NOCALL'' 0 False = (0, [0xc2, 0x31, 0x90, 0x55, 0xef, 0xb3]) \<and>
   drop_bit 6 (0xc2 :: uint8_t) \<noteq> ucast (take_bit 2 (drop_bit 38 (3511409831859 :: uint64_t))) \<and>
   drop_bit 6 (0xc2 :: uint8_t) = ucast (take_bit 2 (drop_bit 40 (3511409831859 :: uint64_t))) \<and>
   (0x31 :: uint8_t) = ucast (drop_bit 32 (3511409831859 :: uint64_t))"
proof -
  have "eth_ar_call2mac [0, 0, 0, 0, 0, 0] ''NOCALL'' 0 False = (0, [0xc2, 0x31, 0x90, 0x55, 0xef, 0xb3])"
    using eth_ar_call2mac_ok[OF _ _ call2mac_loop_NOCALL, of 0 "[0, 0, 0, 0, 0, 0]" False]
    by (simp add: mac0_byte_def)
  then show ?thesis
    by (simp add: call2mac_loop_NOCALL)
qed


lemma eth_ar_call2mac_fst_iff:
  "fst (eth_ar_call2mac mac callsign ssid multicast) \<noteq> 0 \<longleftrightarrow>
     ssid < 0 \<or> 15 < ssid \<or> call2mac_loop callsign 8 0 = None"
  by (auto simp: eth_ar_call2mac_def split: option.splits)

lemma eth_ar_call2mac_fst_values:
  "fst (eth_ar_call2mac mac callsign ssid multicast) = 0 \<or>
   fst (eth_ar_call2mac mac callsign ssid multicast) = - 1"
  by (auto simp: eth_ar_call2mac_def split: option.splits)

text \<open>
  Claim C5, for the positions the loop scans. The call returns \<open>-1\<close> exactly when the SSID is outside 0..15 or
  one of the scanned characters (those at positions below both 8 and the callsign's
  length) is outside 0-9, A-Z, a-z; in every other case it returns 0. Both kinds of
  failure give the same \<open>-1\<close>, and characters at positions 8 and beyond are never looked
  at.
\<close>

theorem call2mac_rejects:
  "fst (eth_ar_call2mac mac callsign ssid multicast) =
     (if ssid < 0 \<or> 15 < ssid \<or>
         (\<exists>p<min (strlen callsign) 8. callsign ! p \<notin>
            set ''0123456789ABCDEFGHIJKLMNOPQRSTUVWXYZabcdefghijklmnopqrstuvwxyz'')
      then - 1 else 0)"
  using eth_ar_call2mac_fst_iff[of mac callsign ssid multicast]
    eth_ar_call2mac_fst_values[of mac callsign ssid multicast]
  unfolding call2mac_loop_none_alnum
  by auto

lemma call2mac_loop_long: "call2mac_loop ''ABCDEFGH!'' 8 0 = Some 1655960606748"
  by (simp add: call2mac_loop_numeral padded_char_def strlen_def toupper_def alnum2code_def)

theorem call2mac_ninth_char_counterexample:
  "CHR ''!'' \<in> set ''ABCDEFGH!'' \<and>
   CHR ''!'' \<notin> set ''0123456789ABCDEFGHIJKLMNOPQRSTUVWXYZabcdefghijklmnopqrstuvwxyz'' \<and>
   eth_ar_call2mac [0, 0, 0, 0, 0, 0] ''ABCDEFGH!'' 0 False =
     (0, [0x42, 0x81, 0x8e, 0xf1, 0x98, 0x1c])"
proof -
  have "eth_ar_call2mac [0, 0, 0, 0, 0, 0] ''ABCDEFGH!'' 0 False =
     (0, [0x42, 0x81, 0x8e, 0xf1, 0x98, 0x1c])"
    using eth_ar_call2mac_ok[OF _ _ call2mac_loop_long, of 0 "[0, 0, 0, 0, 0, 0]" False]
    by (simp add: mac0_byte_def)
  then show ?thesis by simp
qed

text \<open>
  Claim C10. The call returns a nonzero result exactly when the SSID is out of range or
  one of the scanned positions holds a character that is not in the table, and whenever
  it returns a nonzero result that result is \<open>-1\<close> and the \<open>mac\<close> buffer is the one
  passed in, unchanged: the six assignments come after every \<^verbatim>\<open>return -1\<close>.
\<close>

theorem call2mac_error_leaves_mac:
  "(fst (eth_ar_call2mac mac callsign ssid multicast) \<noteq> 0 \<longleftrightarrow>
      ssid < 0 \<or> 15 < ssid \<or>
      (\<exists>p<min (strlen callsign) 8. toupper (callsign ! p) \<notin> set alnum2code)) \<and>
   (fst (eth_ar_call2mac mac callsign ssid multicast) \<noteq> 0 \<longrightarrow>
      eth_ar_call2mac mac callsign ssid multicast = (- 1, mac))"
  using eth_ar_call2mac_fst_iff[of mac callsign ssid multicast]
    eth_ar_call2mac_cases[of mac callsign ssid multicast]
  unfolding call2mac_loop_none_iff
  by auto

theorem call2mac_error_leaves_mac_witness:
  "fst (eth_ar_call2mac [1, 2, 3, 4, 5, 6] ''AB-D'' 0 False) \<noteq> 0 \<and>
   eth_ar_call2mac [1, 2, 3, 4, 5, 6] ''AB-D'' 0 False = (- 1, [1, 2, 3, 4, 5, 6])"
proof -
  have dash: "\<exists>p<min (strlen ''AB-D'') 8. toupper (''AB-D'' ! p) \<notin> set alnum2code"
    by (rule exI[of _ 2]) (simp add: strlen_def toupper_def alnum2code_def)
  from call2mac_error_leaves_mac[of "[1, 2, 3, 4, 5, 6]" "''AB-D''" 0 False]
  have iff: "fst (eth_ar_call2mac [1, 2, 3, 4, 5, 6] ''AB-D'' 0 False) \<noteq> 0 \<longleftrightarrow>
      (0::int) < 0 \<or> (15::int) < 0 \<or>
      (\<exists>p<min (strlen ''AB-D'') 8. toupper (''AB-D'' ! p) \<notin> set alnum2code)"
    and imp: "fst (eth_ar_call2mac [1, 2, 3, 4, 5, 6] ''AB-D'' 0 False) \<noteq> 0 \<longrightarrow>
      eth_ar_call2mac [1, 2, 3, 4, 5, 6] ''AB-D'' 0 False = (- 1, [1, 2, 3, 4, 5, 6])"
    by blast+
  from iff dash have "fst (eth_ar_call2mac [1, 2, 3, 4, 5, 6] ''AB-D'' 0 False) \<noteq> 0" by blast
  with imp show ?thesis by blast
qed

section \<open>Properties of the packet callback\<close>

lemma store_at_append:
  "length pre = off \<Longrightarrow> length xs \<le> length rest \<Longrightarrow>
   store_at (pre @ rest) off xs = pre @ xs @ drop (length xs) rest"
proof (induction xs arbitrary: pre rest off)
  case Nil
  then show ?case by simp
next
  case (Cons x xs)
  from Cons.prems obtain r rs where rest: "rest = r # rs" by (cases rest) auto
  have "(pre @ rest)[off := x] = (pre @ [x]) @ rs"
    using Cons.prems(1) by (simp add: rest list_update_append)
  moreover have "store_at ((pre @ [x]) @ rs) (Suc off) xs = (pre @ [x]) @ xs @ drop (length xs) rs"
    using Cons.prems by (intro Cons.IH) (simp_all add: rest)
  ultimately show ?case by (simp add: rest)
qed

lemma store_at_length [simp]: "length (store_at buf off xs) = length buf"
  by (induction xs arbitrary: buf off) simp_all

lemma fill_count_closed:
  "i \<le> 64 \<Longrightarrow> fill_count packet i = (store_at packet (i + 14) (map of_nat [i..<64]), 64)"
proof (induction packet i rule: fill_count.induct)
  case (1 packet i)
  show ?case
  proof (cases "i < 64")
    case True
    then have "[i..<64] = i # [Suc i..<64]" by (simp add: upt_conv_Cons)
    moreover have "fill_count (packet[i + 14 := of_nat i]) (Suc i) =
        (store_at (packet[i + 14 := of_nat i]) (Suc i + 14) (map of_nat [Suc i..<64]), 64)"
      using True by (intro "1.IH") simp_all
    ultimately show ?thesis using True by (subst fill_count.simps) simp
  next
    case False
    with "1.prems" have "i = 64" by simp
    then show ?thesis by (subst fill_count.simps) simp
  qed
qed

lemma fill_count_0:
  "fill_count packet 0 = (store_at packet 14 (map of_nat [0..<64]), 64)"
  using fill_count_closed[of 0 packet] by simp

lemma my_datatx_test:
  assumes "sint data_type smod 4 = 1" "length (cb_mac st) = 6" "78 \<le> length packet"
  shows "\<exists>packet'. my_datatx data_type st packet =
           (data_type + 1, st\<lparr>cb_calls := cb_calls st + 1\<rparr>, packet', 78) \<and>
           take 78 packet' = replicate 6 0xff @ cb_mac st @ [0x01, 0x01] @ map of_nat [0..<64]"
proof -
  let ?m = "cb_mac st"
  let ?pat = "map of_nat [0..<64] :: uint8_t list"
  have lp: "length ?pat = 64" by simp
  have p1: "store_at packet 0 (replicate 6 0xff) = replicate 6 0xff @ drop 6 packet"
    using store_at_append[of "[]" 0 "replicate 6 0xff" packet] assms(3) by simp
  have p2: "store_at (replicate 6 0xff @ drop 6 packet) 6 (take 6 ?m) =
              (replicate 6 0xff @ ?m) @ drop 12 packet"
    using store_at_append[of "replicate 6 0xff" 6 ?m "drop 6 packet"] assms(2,3) by simp
  have p34: "((replicate 6 0xff @ ?m) @ drop 12 packet)[12 := 0x01, 13 := 0x01] =
              (replicate 6 0xff @ ?m @ [0x01, 0x01]) @ drop 14 packet"
    using store_at_append[of "replicate 6 0xff @ ?m" 12 "[0x01, 0x01]" "drop 12 packet"] assms(2,3)
    by simp
  have p5: "store_at ((replicate 6 0xff @ ?m @ [0x01, 0x01]) @ drop 14 packet) 14 ?pat =
              (replicate 6 0xff @ ?m @ [0x01, 0x01] @ ?pat) @ drop 78 packet"
    using store_at_append[of "replicate 6 0xff @ ?m @ [0x01, 0x01]" 14 ?pat "drop 14 packet"]
      assms(2,3) unfolding lp by simp
  have sz: "(64::nat) + 14 = 78" by simp
  have sel: "cb_mac (st\<lparr>cb_calls := cb_calls st + 1\<rparr>) = cb_mac st" by simp
  have "my_datatx data_type st packet =
           (data_type + 1, st\<lparr>cb_calls := cb_calls st + 1\<rparr>,
            (replicate 6 0xff @ ?m @ [0x01, 0x01] @ ?pat) @ drop 78 packet, 78)"
    unfolding my_datatx_def
    by (simp only: Let_def assms(1) if_True simp_thms sel p1 p2 p34
        fill_count_0 p5 prod.case sz)
  moreover have "take 78 ((replicate 6 0xff @ ?m @ [0x01, 0x01] @ ?pat) @ drop 78 packet)
     = replicate 6 0xff @ ?m @ [0x01, 0x01] @ ?pat"
    using assms(2) lp by (simp del: upt_rec_numeral)
  ultimately show ?thesis by blast
qed

lemma my_datatx_fprs:
  assumes "sint data_type smod 4 = 2" "length (cb_mac st) = 6" "22 \<le> length packet"
  shows "\<exists>packet'. my_datatx data_type st packet =
           (data_type + 1, st\<lparr>cb_calls := cb_calls st + 1\<rparr>, packet', 22) \<and>
           take 22 packet' = replicate 6 0xff @ cb_mac st @
              [0x73, 0x70, 0x07, 0x3d, 0xd0, 0x37, 0xd9, 0x3e, 0x70, 0x85]"
proof -
  let ?m = "cb_mac st"
  let ?pos = "[0x07, 0x3d, 0xd0, 0x37, 0xd0 OR 0x08 OR 0x01, 0x3e, 0x70, 0x85] :: uint8_t list"
  have p1: "store_at packet 0 (replicate 6 0xff) = replicate 6 0xff @ drop 6 packet"
    using store_at_append[of "[]" 0 "replicate 6 0xff" packet] assms(3) by simp
  have p2: "store_at (replicate 6 0xff @ drop 6 packet) 6 (take 6 ?m) =
              (replicate 6 0xff @ ?m) @ drop 12 packet"
    using store_at_append[of "replicate 6 0xff" 6 ?m "drop 6 packet"] assms(2,3) by simp
  have p34: "((replicate 6 0xff @ ?m) @ drop 12 packet)[12 := 0x73, 13 := 0x70] =
              (replicate 6 0xff @ ?m @ [0x73, 0x70]) @ drop 14 packet"
    using store_at_append[of "replicate 6 0xff @ ?m" 12 "[0x73, 0x70]" "drop 12 packet"] assms(2,3)
    by simp
  have p5: "((replicate 6 0xff @ ?m @ [0x73, 0x70]) @ drop 14 packet)
              [14 := 0x07, 15 := 0x3d, 16 := 0xd0, 17 := 0x37,
               18 := 0xd0 OR 0x08 OR 0x01, 19 := 0x3e, 20 := 0x70, 21 := 0x85] =
            (replicate 6 0xff @ ?m @ [0x73, 0x70] @ ?pos) @ drop 22 packet"
    using store_at_append[of "replicate 6 0xff @ ?m @ [0x73, 0x70]" 14 ?pos "drop 14 packet"]
      assms(2,3) by simp
  have sel: "cb_mac (st\<lparr>cb_calls := cb_calls st + 1\<rparr>) = cb_mac st" by simp
  have c: "(2::int) \<noteq> 1" by simp
  have "my_datatx data_type st packet =
           (data_type + 1, st\<lparr>cb_calls := cb_calls st + 1\<rparr>,
            (replicate 6 0xff @ ?m @ [0x73, 0x70] @ ?pos) @ drop 22 packet, 22)"
    unfolding my_datatx_def
    by (simp only: Let_def assms(1) c if_True if_False simp_thms sel p1 p2 p34 p5)
  moreover have "take 22 ((replicate 6 0xff @ ?m @ [0x73, 0x70] @ ?pos) @ drop 22 packet)
     = replicate 6 0xff @ ?m @ [0x73, 0x70, 0x07, 0x3d, 0xd0, 0x37, 0xd9, 0x3e, 0x70, 0x85]"
    using assms(2) by simp
  ultimately show ?thesis by blast
qed

lemma my_datatx_empty:
  assumes "sint data_type smod 4 \<noteq> 1" "sint data_type smod 4 \<noteq> 2"
  shows "my_datatx data_type st packet =
           (data_type + 1, st\<lparr>cb_calls := cb_calls st + 1\<rparr>, packet, 0)"
  using assms by (simp add: my_datatx_def)

lemma my_datatx_counter:
  "fst (my_datatx data_type st packet) = data_type + 1"
  by (simp add: my_datatx_def Let_def split: prod.splits)


lemma datatx_calls_empty:
  assumes "sint data_type smod 4 \<noteq> 1" "sint data_type smod 4 \<noteq> 2"
  shows "datatx_calls data_type st (packet # packets) =
     (case datatx_calls (data_type + 1) (st\<lparr>cb_calls := cb_calls st + 1\<rparr>) packets of
        (d, s, sent) \<Rightarrow> (d, s, (0, []) # sent))"
  using my_datatx_empty[OF assms, of st packet] by simp

lemma datatx_calls_test:
  assumes "sint data_type smod 4 = 1" "length (cb_mac st) = 6" "78 \<le> length packet"
  shows "datatx_calls data_type st (packet # packets) =
     (case datatx_calls (data_type + 1) (st\<lparr>cb_calls := cb_calls st + 1\<rparr>) packets of
        (d, s, sent) \<Rightarrow>
          (d, s, (78, replicate 6 0xff @ cb_mac st @ [0x01, 0x01] @ map of_nat [0..<64]) # sent))"
proof -
  from my_datatx_test[OF assms] obtain packet' where
    "my_datatx data_type st packet =
       (data_type + 1, st\<lparr>cb_calls := cb_calls st + 1\<rparr>, packet', 78)"
    "take 78 packet' = replicate 6 0xff @ cb_mac st @ [0x01, 0x01] @ map of_nat [0..<64]"
    by blast
  then show ?thesis by (simp only: datatx_calls.simps prod.case)
qed

lemma datatx_calls_fprs:
  assumes "sint data_type smod 4 = 2" "length (cb_mac st) = 6" "22 \<le> length packet"
  shows "datatx_calls data_type st (packet # packets) =
     (case datatx_calls (data_type + 1) (st\<lparr>cb_calls := cb_calls st + 1\<rparr>) packets of
        (d, s, sent) \<Rightarrow>
          (d, s, (22, replicate 6 0xff @ cb_mac st @
              [0x73, 0x70, 0x07, 0x3d, 0xd0, 0x37, 0xd9, 0x3e, 0x70, 0x85]) # sent))"
proof -
  from my_datatx_fprs[OF assms] obtain packet' where
    "my_datatx data_type st packet =
       (data_type + 1, st\<lparr>cb_calls := cb_calls st + 1\<rparr>, packet', 22)"
    "take 22 packet' = replicate 6 0xff @ cb_mac st @
              [0x73, 0x70, 0x07, 0x3d, 0xd0, 0x37, 0xd9, 0x3e, 0x70, 0x85]"
    by blast
  then show ?thesis by (simp only: datatx_calls.simps prod.case)
qed

lemma datatx_four:
  assumes "sint data_type smod 4 = 0" "sint (data_type + 1) smod 4 = 1"
    "sint (data_type + 2) smod 4 = 2" "sint (data_type + 3) smod 4 = 3"
    and "length (cb_mac st) = 6"
    and "78 \<le> length p1" "22 \<le> length p2"
  shows "datatx_calls data_type st (p0 # p1 # p2 # p3 # packets) =
     (case datatx_calls (data_type + 4) (st\<lparr>cb_calls := cb_calls st + 4\<rparr>) packets of
        (d, s, sent) \<Rightarrow>
          (d, s, (0, []) #
             (78, replicate 6 0xff @ cb_mac st @ [0x01, 0x01] @ map of_nat [0..<64]) #
             (22, replicate 6 0xff @ cb_mac st @
                [0x73, 0x70, 0x07, 0x3d, 0xd0, 0x37, 0xd9, 0x3e, 0x70, 0x85]) #
             (0, []) # sent))"
proof -
  let ?s1 = "st\<lparr>cb_calls := cb_calls st + 1\<rparr>"
  let ?s2 = "st\<lparr>cb_calls := cb_calls st + 2\<rparr>"
  let ?s3 = "st\<lparr>cb_calls := cb_calls st + 3\<rparr>"
  have a: "datatx_calls data_type st (p0 # p1 # p2 # p3 # packets) =
     (case datatx_calls (data_type + 1) ?s1 (p1 # p2 # p3 # packets) of
        (d, s, sent) \<Rightarrow> (d, s, (0, []) # sent))"
    using assms(1) by (intro datatx_calls_empty) simp_all
  have b: "datatx_calls (data_type + 1) ?s1 (p1 # p2 # p3 # packets) =
     (case datatx_calls (data_type + 2) ?s2 (p2 # p3 # packets) of
        (d, s, sent) \<Rightarrow>
          (d, s, (78, replicate 6 0xff @ cb_mac st @ [0x01, 0x01] @ map of_nat [0..<64]) # sent))"
    using datatx_calls_test[OF assms(2), of ?s1 p1 "p2 # p3 # packets"] assms(5,6)
    by (simp add: add.assoc del: upt_rec_numeral)
  have c: "datatx_calls (data_type + 2) ?s2 (p2 # p3 # packets) =
     (case datatx_calls (data_type + 3) ?s3 (p3 # packets) of
        (d, s, sent) \<Rightarrow>
          (d, s, (22, replicate 6 0xff @ cb_mac st @
              [0x73, 0x70, 0x07, 0x3d, 0xd0, 0x37, 0xd9, 0x3e, 0x70, 0x85]) # sent))"
    using datatx_calls_fprs[OF assms(3), of ?s2 p2 "p3 # packets"] assms(5,7)
    by (simp add: add.assoc)
  have d: "datatx_calls (data_type + 3) ?s3 (p3 # packets) =
     (case datatx_calls (data_type + 4) (st\<lparr>cb_calls := cb_calls st + 4\<rparr>) packets of
        (d, s, sent) \<Rightarrow> (d, s, (0, []) # sent))"
    using datatx_calls_empty[of "data_type + 3" ?s3 p3 packets] assms(4)
    by (simp add: add.assoc)
  obtain dt s sent where rest:
    "datatx_calls (data_type + 4) (st\<lparr>cb_calls := cb_calls st + 4\<rparr>) packets = (dt, s, sent)"
    by (cases "datatx_calls (data_type + 4) (st\<lparr>cb_calls := cb_calls st + 4\<rparr>) packets")
  show ?thesis
    unfolding a b c d rest by (simp only: prod.case)
qed

text \<open>
  Claim C3. Starting with \<open>data_type = 0\<close>, eight successive calls (with a six-byte
  source address in the callback state, and packet buffers that hold at least 78 bytes)
  report, in this order: size 0; size 78 with the bytes ff x 6, the address, 01 01 and
  the 64 bytes 0..63; size 22 with ff x 6, the address, 73 70 and the eight position
  bytes 07 3d d0 37 d9 3e 70 85; size 0; and then the same four again. After them
  \<open>data_type\<close> is 8 and the address is unchanged. Every single call, whatever its branch,
  returns \<open>data_type + 1\<close>.
\<close>

theorem my_datatx_cycle:
  assumes "length (cb_mac st) = 6" and "length packets = 8"
    and "\<forall>p\<in>set packets. 78 \<le> length p"
  shows "datatx_calls 0 st packets =
           (8, st\<lparr>cb_calls := cb_calls st + 8\<rparr>,
            [(0, []),
             (78, replicate 6 0xff @ cb_mac st @ [0x01, 0x01] @ map of_nat [0..<64]),
             (22, replicate 6 0xff @ cb_mac st @
                [0x73, 0x70, 0x07, 0x3d, 0xd0, 0x37, 0xd9, 0x3e, 0x70, 0x85]),
             (0, []),
             (0, []),
             (78, replicate 6 0xff @ cb_mac st @ [0x01, 0x01] @ map of_nat [0..<64]),
             (22, replicate 6 0xff @ cb_mac st @
                [0x73, 0x70, 0x07, 0x3d, 0xd0, 0x37, 0xd9, 0x3e, 0x70, 0x85]),
             (0, [])]) \<and>
         fst (my_datatx data_type st' packet) = data_type + 1"
proof -
  from assms(2) obtain p0 p1 p2 p3 p4 p5 p6 p7 where
    ps: "packets = [p0, p1, p2, p3, p4, p5, p6, p7]"
    by (auto simp: length_Suc_conv eval_nat_numeral)
  from assms(3) have len: "78 \<le> length p1" "22 \<le> length p2" "78 \<le> length p5" "22 \<le> length p6"
    unfolding ps by simp_all
  let ?s4 = "st\<lparr>cb_calls := cb_calls st + 4\<rparr>"
  have first: "datatx_calls 0 st (p0 # p1 # p2 # p3 # [p4, p5, p6, p7]) =
     (case datatx_calls (0 + 4) ?s4 [p4, p5, p6, p7] of
        (d, s, sent) \<Rightarrow>
          (d, s, (0, []) #
             (78, replicate 6 0xff @ cb_mac st @ [0x01, 0x01] @ map of_nat [0..<64]) #
             (22, replicate 6 0xff @ cb_mac st @
                [0x73, 0x70, 0x07, 0x3d, 0xd0, 0x37, 0xd9, 0x3e, 0x70, 0x85]) #
             (0, []) # sent))"
    by (rule datatx_four) (simp_all add: assms(1) len signed_modulo_int_def)
  have second: "datatx_calls (0 + 4) ?s4 (p4 # p5 # p6 # p7 # []) =
     (case datatx_calls (0 + 4 + 4) (?s4\<lparr>cb_calls := cb_calls ?s4 + 4\<rparr>) [] of
        (d, s, sent) \<Rightarrow>
          (d, s, (0, []) #
             (78, replicate 6 0xff @ cb_mac ?s4 @ [0x01, 0x01] @ map of_nat [0..<64]) #
             (22, replicate 6 0xff @ cb_mac ?s4 @
                [0x73, 0x70, 0x07, 0x3d, 0xd0, 0x37, 0xd9, 0x3e, 0x70, 0x85]) #
             (0, []) # sent))"
    by (rule datatx_four) (simp_all add: assms(1) len signed_modulo_int_def)
  have "datatx_calls 0 st packets =
           (8, st\<lparr>cb_calls := cb_calls st + 8\<rparr>,
            [(0, []),
             (78, replicate 6 0xff @ cb_mac st @ [0x01, 0x01] @ map of_nat [0..<64]),
             (22, replicate 6 0xff @ cb_mac st @
                [0x73, 0x70, 0x07, 0x3d, 0xd0, 0x37, 0xd9, 0x3e, 0x70, 0x85]),
             (0, []),
             (0, []),
             (78, replicate 6 0xff @ cb_mac st @ [0x01, 0x01] @ map of_nat [0..<64]),
             (22, replicate 6 0xff @ cb_mac st @
                [0x73, 0x70, 0x07, 0x3d, 0xd0, 0x37, 0xd9, 0x3e, 0x70, 0x85]),
             (0, [])])"
    unfolding ps first second by (simp del: upt_rec_numeral)
  then show ?thesis by (simp add: my_datatx_counter)
qed



theorem my_datatx_cycle_witness:
  "datatx_calls 0 \<lparr>cb_calls = 0, cb_mac = [0xc2, 0x31, 0x90, 0x55, 0xef, 0xb3]\<rparr>
       (replicate 8 (replicate 78 0)) =
     (8, \<lparr>cb_calls = 0, cb_mac = [0xc2, 0x31, 0x90, 0x55, 0xef, 0xb3]\<rparr>
           \<lparr>cb_calls := cb_calls \<lparr>cb_calls = 0, cb_mac = [0xc2, 0x31, 0x90, 0x55, 0xef, 0xb3]\<rparr> + 8\<rparr>,
      [(0, []),
       (78, replicate 6 0xff @ cb_mac \<lparr>cb_calls = 0, cb_mac = [0xc2, 0x31, 0x90, 0x55, 0xef, 0xb3]\<rparr>
              @ [0x01, 0x01] @ map of_nat [0..<64]),
       (22, replicate 6 0xff @ cb_mac \<lparr>cb_calls = 0, cb_mac = [0xc2, 0x31, 0x90, 0x55, 0xef, 0xb3]\<rparr>
              @ [0x73, 0x70, 0x07, 0x3d, 0xd0, 0x37, 0xd9, 0x3e, 0x70, 0x85]),
       (0, []),
       (0, []),
       (78, replicate 6 0xff @ cb_mac \<lparr>cb_calls = 0, cb_mac = [0xc2, 0x31, 0x90, 0x55, 0xef, 0xb3]\<rparr>
              @ [0x01, 0x01] @ map of_nat [0..<64]),
       (22, replicate 6 0xff @ cb_mac \<lparr>cb_calls = 0, cb_mac = [0xc2, 0x31, 0x90, 0x55, 0xef, 0xb3]\<rparr>
              @ [0x73, 0x70, 0x07, 0x3d, 0xd0, 0x37, 0xd9, 0x3e, 0x70, 0x85]),
       (0, [])]) \<and>
   fst (my_datatx 6 \<lparr>cb_calls = 6, cb_mac = [0xc2, 0x31, 0x90, 0x55, 0xef, 0xb3]\<rparr>
          (replicate 78 0)) = 6 + 1"
  by (rule my_datatx_cycle) simp_all

section \<open>Properties of the main loop\<close>

lemma split_block_cases:
  assumes "ls_c2 st = Some c2" "freedv_get_bits_per_codec_frame L (ls_freedv st) \<noteq> 0"
    and "encode_block L (float_round E) (freedv_get_bits_per_codec_frame L (ls_freedv st))
           (freedv_get_bits_per_modem_frame L (ls_freedv st)) c2 speech_in = (c2', encoded, energy)"
  shows "split_block L E cfg speech_in st =
     (case frame_decision energy (cfg_data_threshold cfg) of
        DATA \<Rightarrow>
          Inr (st\<lparr>ls_freedv := fst (freedv_datatx L (ls_freedv st)), ls_c2 := Some c2',
                  ls_mod_out := store_at (ls_mod_out st) 0 (snd (freedv_datatx L (ls_freedv st)))\<rparr>)
      | VOICE \<Rightarrow>
          Inr (st\<lparr>ls_freedv := fst (modulate_frames L (ls_freedv st) encoded), ls_c2 := Some c2',
                  ls_mod_out := store_at (ls_mod_out st) 0
                     (snd (modulate_frames L (ls_freedv st) encoded))\<rparr>))"
  unfolding split_block_def
  by (simp only: assms option.case Let_def if_False prod.case case_prod_beta
      split: frame_kind.split) simp

lemma split_block_frame:
  assumes "ls_c2 st \<noteq> None" "freedv_get_bits_per_codec_frame L (ls_freedv st) \<noteq> 0"
  shows "\<exists>st'. split_block L E cfg speech_in st = Inr st' \<and>
           ls_fin st' = ls_fin st \<and> ls_fout st' = ls_fout st \<and> ls_c2 st' \<noteq> None \<and>
           length (ls_mod_out st') = length (ls_mod_out st)"
proof -
  from assms(1) obtain c2 where c2: "ls_c2 st = Some c2" by auto
  obtain c2' encoded energy where enc:
    "encode_block L (float_round E) (freedv_get_bits_per_codec_frame L (ls_freedv st))
           (freedv_get_bits_per_modem_frame L (ls_freedv st)) c2 speech_in = (c2', encoded, energy)"
    by (rule prod_cases3)
  show ?thesis
    unfolding split_block_cases[OF c2 assms(2) enc]
    by (cases "frame_decision energy (cfg_data_threshold cfg)") simp_all
qed

lemma integrated_block_frame:
  "ls_fin (integrated_block L E cfg speech_in st) = ls_fin st"
  "ls_fout (integrated_block L E cfg speech_in st) = ls_fout st"
  "ls_c2 (integrated_block L E cfg speech_in st) = ls_c2 st"
  "length (ls_mod_out (integrated_block L E cfg speech_in st)) = length (ls_mod_out st)"
  by (simp_all add: integrated_block_def Let_def split: frame_kind.split prod.split)

lemma process_block_ok:
  assumes "length (ls_mod_out st) = cfg_n_nom_modem_samples cfg"
    and "cfg_use_codectx cfg = 0 \<or>
         (ls_c2 st \<noteq> None \<and> (\<forall>f. freedv_get_bits_per_codec_frame L f \<noteq> 0))"
  shows "\<exists>st' b. process_block L E cfg speech_in st = Inr st' \<and>
           ls_fin st' = ls_fin st \<and>
           ls_fout st' = ls_fout st @ [b] \<and> length b = cfg_n_nom_modem_samples cfg \<and>
           length (ls_mod_out st') = cfg_n_nom_modem_samples cfg \<and>
           (cfg_use_codectx cfg = 0 \<or>
            (ls_c2 st' \<noteq> None \<and> (\<forall>f. freedv_get_bits_per_codec_frame L f \<noteq> 0)))"
proof (cases "cfg_use_codectx cfg = 0")
  case True
  let ?st = "integrated_block L E cfg speech_in st"
  have "process_block L E cfg speech_in st =
      Inr (?st\<lparr>ls_fout := ls_fout ?st @ [take (cfg_n_nom_modem_samples cfg) (ls_mod_out ?st)]\<rparr>)"
    using True by (simp add: process_block_def)
  then show ?thesis
    using assms(1) True by (simp add: integrated_block_frame)
next
  case False
  with assms(2) have c2: "ls_c2 st \<noteq> None"
    and bpc: "freedv_get_bits_per_codec_frame L (ls_freedv st) \<noteq> 0"
    and all: "\<forall>f. freedv_get_bits_per_codec_frame L f \<noteq> 0"
    by auto
  from split_block_frame[OF c2 bpc, of E cfg speech_in] obtain st1 where st1:
    "split_block L E cfg speech_in st = Inr st1" "ls_fin st1 = ls_fin st"
    "ls_fout st1 = ls_fout st" "ls_c2 st1 \<noteq> None"
    "length (ls_mod_out st1) = length (ls_mod_out st)"
    by blast
  have "process_block L E cfg speech_in st =
      Inr (st1\<lparr>ls_fout := ls_fout st1 @ [take (cfg_n_nom_modem_samples cfg) (ls_mod_out st1)]\<rparr>)"
    using False by (simp add: process_block_def st1(1))
  then show ?thesis
    using assms(1) st1 all by simp
qed

text \<open>
  Claim C8. When the block length is positive and the input holds \<open>k\<close> full blocks and
  then \<open>r\<close> samples, fewer than a block, the loop ends through its \<^verbatim>\<open>fread\<close> test
  (result \<open>Inr\<close>, no fatal ending) after appending exactly \<open>k\<close> blocks to the output, each
  of \<open>n_nom_modem_samples\<close> samples, with the input used up. The \<open>mod_out\<close> buffer has the
  size it was allocated with, and in the \<^verbatim>\<open>--codectx\<close> mode the codec exists and the
  library never reports 0 bits per codec frame.
\<close>

theorem main_loop_block_count:
  assumes "0 < cfg_n_speech_samples cfg"
    and "length (ls_fin st) = k * cfg_n_speech_samples cfg + r"
    and "r < cfg_n_speech_samples cfg"
    and "length (ls_mod_out st) = cfg_n_nom_modem_samples cfg"
    and "cfg_use_codectx cfg = 0 \<or>
         (ls_c2 st \<noteq> None \<and> (\<forall>f. freedv_get_bits_per_codec_frame L f \<noteq> 0))"
  shows "\<exists>st' blocks. main_loop L E cfg st = Some (Inr st') \<and>
           ls_fout st' = ls_fout st @ blocks \<and> length blocks = k \<and>
           (\<forall>b\<in>set blocks. length b = cfg_n_nom_modem_samples cfg) \<and>
           ls_fin st' = []"
  using assms(2,4,5)
proof (induction k arbitrary: st)
  case 0
  then have "\<not> cfg_n_speech_samples cfg \<le> length (ls_fin st)" using assms(3) by simp
  then have "main_loop L E cfg st = Some (Inr (st\<lparr>ls_fin := []\<rparr>))"
    by (subst main_loop.simps) simp
  then show ?case by simp
next
  case (Suc k)
  let ?n = "cfg_n_speech_samples cfg"
  let ?st = "st\<lparr>ls_fin := drop ?n (ls_fin st)\<rparr>"
  have full: "?n \<le> length (ls_fin st)" using Suc.prems(1) by simp
  have r1: "length (ls_mod_out ?st) = cfg_n_nom_modem_samples cfg" using Suc.prems(2) by simp
  have r2: "cfg_use_codectx cfg = 0 \<or>
         (ls_c2 ?st \<noteq> None \<and> (\<forall>f. freedv_get_bits_per_codec_frame L f \<noteq> 0))"
    using Suc.prems(3) by simp
  from process_block_ok[OF r1 r2, of E "take ?n (ls_fin st)"] obtain st1 b where st1:
    "process_block L E cfg (take ?n (ls_fin st)) ?st = Inr st1"
    "ls_fin st1 = ls_fin ?st" "ls_fout st1 = ls_fout ?st @ [b]"
    "length b = cfg_n_nom_modem_samples cfg"
    "length (ls_mod_out st1) = cfg_n_nom_modem_samples cfg"
    "cfg_use_codectx cfg = 0 \<or>
         (ls_c2 st1 \<noteq> None \<and> (\<forall>f. freedv_get_bits_per_codec_frame L f \<noteq> 0))"
    by blast
  have step: "main_loop L E cfg st = main_loop L E cfg st1"
    using full by (subst main_loop.simps) (simp add: st1(1))
  have "length (ls_fin st1) = k * ?n + r" using Suc.prems(1) st1(2) by simp
  from Suc.IH[OF this st1(5,6)] obtain st' blocks where rest:
    "main_loop L E cfg st1 = Some (Inr st')" "ls_fout st' = ls_fout st1 @ blocks"
    "length blocks = k" "\<forall>b\<in>set blocks. length b = cfg_n_nom_modem_samples cfg"
    "ls_fin st' = []"
    by blast
  have "main_loop L E cfg st = Some (Inr st') \<and>
        ls_fout st' = ls_fout st @ (b # blocks) \<and> length (b # blocks) = Suc k \<and>
        (\<forall>x\<in>set (b # blocks). length x = cfg_n_nom_modem_samples cfg) \<and> ls_fin st' = []"
    using step rest st1(3,4) by simp
  then show ?case by (intro exI[of _ st'] exI[of _ "b # blocks"])
qed



theorem main_loop_block_count_witness:
  "\<exists>st' blocks.
     main_loop demo_library (demo_env [])
       \<lparr>cfg_n_speech_samples = 4, cfg_n_nom_modem_samples = 3, cfg_use_codectx = 1,
        cfg_data_threshold = 15\<rparr>
       \<lparr>ls_fin = [1000, 0, 1000, 0, 512, 0, 512, 0, 9], ls_fout = [], ls_mod_out = [0, 0, 0],
        ls_freedv = (0, []), ls_c2 = Some 0\<rparr> = Some (Inr st') \<and>
     ls_fout st' = blocks \<and> length blocks = 2 \<and> (\<forall>b\<in>set blocks. length b = 3) \<and>
     ls_fin st' = []"
proof -
  let ?cfg = "\<lparr>cfg_n_speech_samples = 4, cfg_n_nom_modem_samples = 3, cfg_use_codectx = 1,
        cfg_data_threshold = 15\<rparr>"
  let ?st = "\<lparr>ls_fin = [1000, 0, 1000, 0, 512, 0, 512, 0, 9], ls_fout = [],
        ls_mod_out = [0, 0, 0], ls_freedv = (0::nat, [] :: uint8_t list), ls_c2 = Some (0::nat)\<rparr>"
  have codec: "cfg_use_codectx ?cfg = 0 \<or>
      (ls_c2 ?st \<noteq> None \<and> (\<forall>f. freedv_get_bits_per_codec_frame demo_library f \<noteq> 0))"
    by (simp add: demo_library_def demo_base_def)
  from main_loop_block_count[of ?cfg ?st 2 1 demo_library "demo_env []", OF _ _ _ _ codec]
  show ?thesis by simp
qed

lemma integrated_block_cases:
  "integrated_block L E cfg speech_in st =
     (case frame_decision
             (samples_get_energy (float_round E) speech_in (cfg_n_speech_samples cfg))
             (cfg_data_threshold cfg) of
        DATA \<Rightarrow>
          st\<lparr>ls_freedv := fst (freedv_datatx L (ls_freedv st)),
             ls_mod_out := store_at (ls_mod_out st) 0 (snd (freedv_datatx L (ls_freedv st)))\<rparr>
      | VOICE \<Rightarrow>
          st\<lparr>ls_freedv := fst (freedv_tx L (ls_freedv st) speech_in),
             ls_mod_out := store_at (ls_mod_out st) 0
                (snd (freedv_tx L (ls_freedv st) speech_in))\<rparr>)"
  by (simp add: integrated_block_def Let_def case_prod_beta split: frame_kind.split)

text \<open>
  Claim C4. With an energy that is a number, the decision is \<open>DATA\<close> exactly when the
  energy is strictly below the threshold and \<open>VOICE\<close> exactly when it is not; an energy
  equal to the threshold gives \<open>VOICE\<close>, and the threshold less any positive amount gives
  \<open>DATA\<close>. (A not-a-number energy compares false and gives \<open>VOICE\<close>.) Both branches of the
  loop body go through this one decision: the integrated branch with the energy of the
  samples, choosing between \<^verbatim>\<open>freedv_datatx\<close> and \<^verbatim>\<open>freedv_tx\<close>, the other branch with
  the mean energy the codec reports, choosing between \<^verbatim>\<open>freedv_datatx\<close> and the
  modulation of the frames it encoded.
\<close>

theorem frame_decision_rule:
  "(frame_decision (Some score) threshold = DATA \<longleftrightarrow> score < threshold) \<and>
   (frame_decision (Some score) threshold = VOICE \<longleftrightarrow> threshold \<le> score) \<and>
   frame_decision (Some threshold) threshold = VOICE \<and>
   (0 < eps \<longrightarrow> frame_decision (Some (threshold - eps)) threshold = DATA) \<and>
   frame_decision None threshold = VOICE \<and>
   integrated_block L E cfg speech_in st =
     (case frame_decision
             (samples_get_energy (float_round E) speech_in (cfg_n_speech_samples cfg))
             (cfg_data_threshold cfg) of
        DATA \<Rightarrow>
          st\<lparr>ls_freedv := fst (freedv_datatx L (ls_freedv st)),
             ls_mod_out := store_at (ls_mod_out st) 0 (snd (freedv_datatx L (ls_freedv st)))\<rparr>
      | VOICE \<Rightarrow>
          st\<lparr>ls_freedv := fst (freedv_tx L (ls_freedv st) speech_in),
             ls_mod_out := store_at (ls_mod_out st) 0
                (snd (freedv_tx L (ls_freedv st) speech_in))\<rparr>) \<and>
   (ls_c2 st = Some c2 \<and> freedv_get_bits_per_codec_frame L (ls_freedv st) \<noteq> 0 \<and>
    encode_block L (float_round E) (freedv_get_bits_per_codec_frame L (ls_freedv st))
      (freedv_get_bits_per_modem_frame L (ls_freedv st)) c2 speech_in = (c2', encoded, energy)
    \<longrightarrow>
    split_block L E cfg speech_in st =
      (case frame_decision energy (cfg_data_threshold cfg) of
         DATA \<Rightarrow>
           Inr (st\<lparr>ls_freedv := fst (freedv_datatx L (ls_freedv st)), ls_c2 := Some c2',
                   ls_mod_out := store_at (ls_mod_out st) 0
                      (snd (freedv_datatx L (ls_freedv st)))\<rparr>)
       | VOICE \<Rightarrow>
           Inr (st\<lparr>ls_freedv := fst (modulate_frames L (ls_freedv st) encoded),
                   ls_c2 := Some c2',
                   ls_mod_out := store_at (ls_mod_out st) 0
                      (snd (modulate_frames L (ls_freedv st) encoded))\<rparr>)))"
proof -
  have "frame_decision (Some score) threshold = DATA \<longleftrightarrow> score < threshold"
    by (simp add: frame_decision_def)
  moreover have "frame_decision (Some score) threshold = VOICE \<longleftrightarrow> threshold \<le> score"
    by (auto simp: frame_decision_def)
  moreover have "frame_decision (Some threshold) threshold = VOICE"
    by (simp add: frame_decision_def)
  moreover have "0 < eps \<longrightarrow> frame_decision (Some (threshold - eps)) threshold = DATA"
    by (simp add: frame_decision_def)
  moreover have "frame_decision None threshold = VOICE"
    by (simp add: frame_decision_def)
  moreover note integrated_block_cases[of L E cfg speech_in st]
  moreover have "ls_c2 st = Some c2 \<and> freedv_get_bits_per_codec_frame L (ls_freedv st) \<noteq> 0 \<and>
    encode_block L (float_round E) (freedv_get_bits_per_codec_frame L (ls_freedv st))
      (freedv_get_bits_per_modem_frame L (ls_freedv st)) c2 speech_in = (c2', encoded, energy)
    \<longrightarrow>
    split_block L E cfg speech_in st =
      (case frame_decision energy (cfg_data_threshold cfg) of
         DATA \<Rightarrow>
           Inr (st\<lparr>ls_freedv := fst (freedv_datatx L (ls_freedv st)), ls_c2 := Some c2',
                   ls_mod_out := store_at (ls_mod_out st) 0
                      (snd (freedv_datatx L (ls_freedv st)))\<rparr>)
       | VOICE \<Rightarrow>
           Inr (st\<lparr>ls_freedv := fst (modulate_frames L (ls_freedv st) encoded),
                   ls_c2 := Some c2',
                   ls_mod_out := store_at (ls_mod_out st) 0
                      (snd (modulate_frames L (ls_freedv st) encoded))\<rparr>))"
    using split_block_cases[of st c2 L E speech_in c2' encoded energy cfg] by blast
  ultimately show ?thesis by (intro conjI)
qed


lemma demo_bits:
  "freedv_get_bits_per_codec_frame demo_library f = 8"
  "freedv_get_bits_per_modem_frame demo_library f = 16"
  by (simp_all add: demo_library_def demo_base_def)

lemma replicate_2: "replicate 2 x = [x, x]"
  by (simp add: numeral_2_eq_2)

lemma demo_encode_quiet:
  "encode_block demo_library (float_round (demo_env [])) 8 16 0 [512, 0, 512, 0] =
     (2, [0, 0], Some 0)"
  by (simp add: encode_block_def demo_library_def demo_base_def demo_env_def Let_def replicate_2)

theorem frame_decision_rule_witness:
  "frame_decision (Some (15 - 1 / 2)) 15 = DATA \<and>
   frame_decision (Some 15) 15 = VOICE \<and>
   split_block demo_library (demo_env [])
       \<lparr>cfg_n_speech_samples = 4, cfg_n_nom_modem_samples = 3, cfg_use_codectx = 1,
        cfg_data_threshold = 15\<rparr>
       [512, 0, 512, 0]
       \<lparr>ls_fin = [], ls_fout = [], ls_mod_out = [0, 0, 0], ls_freedv = (0, []),
        ls_c2 = Some 0\<rparr> =
     Inr \<lparr>ls_fin = [], ls_fout = [], ls_mod_out = [7, 7, 7], ls_freedv = (0, []),
          ls_c2 = Some 2\<rparr>"
proof -
  let ?cfg = "\<lparr>cfg_n_speech_samples = 4, cfg_n_nom_modem_samples = 3, cfg_use_codectx = 1,
        cfg_data_threshold = 15\<rparr>"
  let ?st = "\<lparr>ls_fin = [], ls_fout = [], ls_mod_out = [0, 0, 0], ls_freedv = (0::nat, [] :: uint8_t list),
        ls_c2 = Some (0::nat)\<rparr>"
  note rule = frame_decision_rule[of "15 - 1 / 2" 15 "1 / 2" demo_library "demo_env []" ?cfg
      "[512, 0, 512, 0]" ?st 0 2 "[0, 0]" "Some 0"]
  have eps: "(0::real) < 1 / 2" by simp
  have pre: "ls_c2 ?st = Some 0 \<and>
      freedv_get_bits_per_codec_frame demo_library (ls_freedv ?st) \<noteq> 0 \<and>
      encode_block demo_library (float_round (demo_env []))
        (freedv_get_bits_per_codec_frame demo_library (ls_freedv ?st))
        (freedv_get_bits_per_modem_frame demo_library (ls_freedv ?st)) 0 [512, 0, 512, 0] =
      (2, [0, 0], Some 0)"
    by (simp add: demo_bits demo_encode_quiet)
  have a: "frame_decision (Some (15 - 1 / 2)) 15 = DATA" using rule eps by blast
  have b: "frame_decision (Some 15) 15 = VOICE" using rule by blast
  have c: "split_block demo_library (demo_env []) ?cfg [512, 0, 512, 0] ?st =
      (case frame_decision (Some 0) (cfg_data_threshold ?cfg) of
         DATA \<Rightarrow>
           Inr (?st\<lparr>ls_freedv := fst (freedv_datatx demo_library (ls_freedv ?st)), ls_c2 := Some 2,
                   ls_mod_out := store_at (ls_mod_out ?st) 0
                      (snd (freedv_datatx demo_library (ls_freedv ?st)))\<rparr>)
       | VOICE \<Rightarrow>
           Inr (?st\<lparr>ls_freedv := fst (modulate_frames demo_library (ls_freedv ?st) [0, 0]),
                   ls_c2 := Some 2,
                   ls_mod_out := store_at (ls_mod_out ?st) 0
                      (snd (modulate_frames demo_library (ls_freedv ?st) [0, 0]))\<rparr>))"
    using rule pre by blast
  have d: "freedv_datatx demo_library (0, []) = ((0, []), [7, 7, 7])"
    by (simp add: demo_library_def demo_base_def)
  have q: "frame_decision (Some 0) (cfg_data_threshold ?cfg) = DATA"
    by (simp add: frame_decision_def)
  show ?thesis
    unfolding c q using a b by (simp add: d)
qed

section \<open>Properties of the start-up\<close>

lemma parse_mode_unknown:
  assumes "arg \<notin> {''2400A'', ''2400B'', ''800XA''}"
  shows "parse_mode L arg = - 1"
  using assms by (simp add: parse_mode_def)

lemma atoi_range:
  "atoi ''16'' = 16 \<and> atoi '' -1'' = - 1 \<and> atoi ''4294967301'' = 5 \<and>
   atoi ''2147483648'' = - 2147483648 \<and> atoi ''99999999999999999999'' = - 1"
  by code_simp

text \<open>
  Claim C7, the exit status of an unknown mode. With at least three arguments after the program
  name and a mode string other than \<open>2400A\<close>, \<open>2400B\<close> and \<open>800XA\<close>, the program writes
  "Error in mode: ..." to the standard error stream and calls \<^verbatim>\<open>exit(0)\<close>: it stops
  before anything is opened or processed, but with exit status 0.
\<close>

theorem main_unknown_mode:
  assumes "4 \<le> length argv" and "argv ! 1 \<notin> {''2400A'', ''2400B'', ''800XA''}"
  shows "main L E argv =
           Some \<lparr>res_ending = Exit 0, res_stdout = [],
                 res_stderr = ''Error in mode: '' @ argv ! 1 @ [CHR 0x0A],
                 res_fout = [], res_freedv = None\<rparr>"
  using assms(1) parse_mode_unknown[OF assms(2), of L]
  by (simp add: main_def ended_def)

theorem main_unknown_mode_witness:
  "main demo_library (demo_env [1000, 0, 1000, 0]) [''freedv_mixed_tx'', ''1600'', ''-'', ''-''] =
     Some \<lparr>res_ending = Exit 0, res_stdout = [],
           res_stderr = ''Error in mode: 1600'' @ [CHR 0x0A],
           res_fout = [], res_freedv = None\<rparr>"
  using main_unknown_mode[of "[''freedv_mixed_tx'', ''1600'', ''-'', ''-'']" demo_library
      "demo_env [1000, 0, 1000, 0]"]
  by simp

text \<open>
  Claim C6, the result of the address step. With \<^verbatim>\<open>--ssid 16\<close> the encoder returns \<open>-1\<close> and
  leaves the buffer alone, the address step goes on with that buffer, the uninitialised
  \<^verbatim>\<open>my_cb_state.mac\<close>, and the program runs to the end: on the stand-in library, with
  one block of input, it hands the uninitialised bytes to the session as its data
  header, writes the block's modem samples and returns 0.
\<close>

theorem main_ignores_encoding_error:
  "fst (eth_ar_call2mac (stack_mac E) ''NOCALL'' 16 False) = - 1 \<and>
   generate_address E
     \<lparr>opt_callsign = Some ''NOCALL'', opt_ssid = 16, opt_multicast = False,
      opt_use_codectx = 0, opt_c2 = c2, opt_data_threshold = 15\<rparr> = Inr (stack_mac E) \<and>
   main demo_library (demo_env [1000, 0, 1000, 0])
       [''freedv_mixed_tx'', ''2400A'', ''-'', ''-'', ''--ssid'', ''16''] =
     Some \<lparr>res_ending = Return 0, res_stdout = [], res_stderr = [],
           res_fout = [[232, 232, 0]],
           res_freedv = Some (2, [0xde, 0xad, 0xbe, 0xef, 0x00, 0x01])\<rparr>"
proof -
  have "fst (eth_ar_call2mac (stack_mac E) ''NOCALL'' 16 False) = - 1"
    by (simp add: eth_ar_call2mac_def)
  moreover have "generate_address E
     \<lparr>opt_callsign = Some ''NOCALL'', opt_ssid = 16, opt_multicast = False,
      opt_use_codectx = 0, opt_c2 = c2, opt_data_threshold = 15\<rparr> = Inr (stack_mac E)"
    by (simp add: generate_address_def eth_ar_call2mac_def)
  moreover have "main demo_library (demo_env [1000, 0, 1000, 0])
       [''freedv_mixed_tx'', ''2400A'', ''-'', ''-'', ''--ssid'', ''16''] =
     Some \<lparr>res_ending = Return 0, res_stdout = [], res_stderr = [],
           res_fout = [[232, 232, 0]],
           res_freedv = Some (2, [0xde, 0xad, 0xbe, 0xef, 0x00, 0x01])\<rparr>"
    by code_simp
  ultimately show ?thesis by (intro conjI)
qed

section \<open>The two transmit modes on a voice block\<close>

























end
